theory Spec2Isabelle
  imports Main "HOL-Library.Word"
begin

section \<open>Strings of the host language\<close>

text \<open>
  The program is the React component \<^verbatim>\<open>App\<close> of \<^verbatim>\<open>src/web/src/App.jsx\<close>.
  A JavaScript string is a sequence of UTF-16 code units, so a string is a list of
  16-bit words here. The literals of the source outside ASCII (the Korean display
  texts) are written as their code units.
\<close>

type_synonym code_unit = "16 word"
type_synonym jsstring = "code_unit list"

definition ascii :: "string \<Rightarrow> jsstring" where
  "ascii s = map of_char s"

definition digit :: "nat \<Rightarrow> code_unit" where
  "digit d = of_nat (48 + d)"

text \<open>Decimal rendering of a non-negative integer, most significant digit first.\<close>

fun nat_str :: "nat \<Rightarrow> jsstring" where
  "nat_str n = (if n < 10 then [digit n] else nat_str (n div 10) @ [digit (n mod 10)])"

declare nat_str.simps [simp del]

text \<open>
  \<^verbatim>\<open>`${n}`\<close> for an integral Number \<open>n\<close>: a minus sign and the decimal digits.
  Numbers are mathematical integers in this development; the program does no
  arithmetic on the numbers it receives, and the rendering agrees with the host's
  for every integer it represents exactly and prints without an exponent.
\<close>

definition int_str :: "int \<Rightarrow> jsstring" where
  "int_str i = (if i < 0 then ascii ''-'' @ nat_str (nat (- i)) else nat_str (nat i))"

text \<open>\<^verbatim>\<open>s.padStart(n, c)\<close> for a one-unit filler \<open>c\<close>.\<close>

definition padStart :: "nat \<Rightarrow> code_unit \<Rightarrow> jsstring \<Rightarrow> jsstring" where
  "padStart n c s = replicate (n - length s) c @ s"

text \<open>
  The code units that \<^verbatim>\<open>String.prototype.trim\<close> strips: ECMAScript's WhiteSpace and
  LineTerminator.
\<close>

definition is_space :: "code_unit \<Rightarrow> bool" where
  "is_space c \<longleftrightarrow>
     c \<in> {0x9, 0xA, 0xB, 0xC, 0xD, 0x20, 0xA0, 0x1680, 0x2028, 0x2029, 0x202F, 0x205F,
          0x3000, 0xFEFF} \<or> (0x2000 \<le> c \<and> c \<le> 0x200A)"

definition trim :: "jsstring \<Rightarrow> jsstring" where
  "trim s = rev (dropWhile is_space (rev (dropWhile is_space s)))"

section \<open>Dates\<close>

text \<open>
  A number of the host that may be \<^verbatim>\<open>NaN\<close>: \<open>None\<close> is \<^verbatim>\<open>NaN\<close>. The numbers the
  calendar computes with are integers.
\<close>

type_synonym num = "int option"

definition num_str :: "num \<Rightarrow> jsstring" where
  "num_str n = (case n of None \<Rightarrow> ascii ''NaN'' | Some i \<Rightarrow> int_str i)"

text \<open>\<^verbatim>\<open>i < n\<close> and \<^verbatim>\<open>i <= n\<close> for an integer \<open>i\<close>: false when \<open>n\<close> is \<^verbatim>\<open>NaN\<close>.\<close>

definition num_less :: "int \<Rightarrow> num \<Rightarrow> bool" where
  "num_less i n = (case n of None \<Rightarrow> False | Some k \<Rightarrow> i < k)"

definition num_le :: "int \<Rightarrow> num \<Rightarrow> bool" where
  "num_le i n = (case n of None \<Rightarrow> False | Some k \<Rightarrow> i \<le> k)"

text \<open>
  A day of the proleptic Gregorian calendar, by the three fields the program reads from
  a \<^verbatim>\<open>Date\<close>: the year, the month (0 is January) and the day of the month.
\<close>

record civil =
  fullYear :: int
  month :: int
  date :: int

definition leap_year :: "int \<Rightarrow> bool" where
  "leap_year y \<longleftrightarrow> y mod 4 = 0 \<and> (y mod 100 \<noteq> 0 \<or> y mod 400 = 0)"

definition days_in_month :: "int \<Rightarrow> int \<Rightarrow> int" where
  "days_in_month y m =
     (if m = 1 then (if leap_year y then 29 else 28)
      else if m = 3 \<or> m = 5 \<or> m = 8 \<or> m = 10 then 30 else 31)"

definition valid_date :: "civil \<Rightarrow> bool" where
  "valid_date dt \<longleftrightarrow>
     0 \<le> month dt \<and> month dt \<le> 11 \<and>
     1 \<le> date dt \<and> date dt \<le> days_in_month (fullYear dt) (month dt)"

text \<open>ECMAScript's \<open>DayFromYear\<close>: the day number of 1 January of year \<open>y\<close>, day 0 being 1 January 1970.\<close>

definition DayFromYear :: "int \<Rightarrow> int" where
  "DayFromYear y =
     365 * (y - 1970) + (y - 1969) div 4 - (y - 1901) div 100 + (y - 1601) div 400"

definition days_before_month :: "int \<Rightarrow> int \<Rightarrow> int" where
  "days_before_month y m = sum_list (map (days_in_month y) [0..m - 1])"

text \<open>
  The day number of day \<open>d\<close> of month \<open>m\<close> (in \<open>0..11\<close>) of year \<open>y\<close>; \<open>d\<close> may lie
  outside the month.
\<close>

definition day_number :: "int \<Rightarrow> int \<Rightarrow> int \<Rightarrow> int" where
  "day_number y m d = DayFromYear y + days_before_month y m + d - 1"

text \<open>ECMAScript's \<open>WeekDay\<close>: 0 is Sunday; day 0 was a Thursday.\<close>

definition weekday :: "int \<Rightarrow> int \<Rightarrow> int \<Rightarrow> int" where
  "weekday y m d = (day_number y m d + 4) mod 7"

text \<open>
  The calendar day that lies \<open>d - 1\<close> days after day 1 of month \<open>m\<close> (in \<open>0..11\<close>) of
  year \<open>y\<close>: a day of the month outside the month is carried into the neighbouring
  months, one month at a time.
\<close>

function normalize_day :: "int \<Rightarrow> int \<Rightarrow> int \<Rightarrow> civil" where
  "normalize_day y m d =
     (if d < 1 then
        (let y' = (if m = 0 then y - 1 else y); m' = (if m = 0 then 11 else m - 1)
         in normalize_day y' m' (d + days_in_month y' m'))
      else if days_in_month y m < d then
        (let y' = (if m = 11 then y + 1 else y); m' = (if m = 11 then 0 else m + 1)
         in normalize_day y' m' (d - days_in_month y m))
      else \<lparr>fullYear = y, month = m, date = d\<rparr>)"
  by pat_completeness auto
termination
  by (relation "measures [\<lambda>(y, m, d). if d < 1 then 1 else 0, \<lambda>(y, m, d). nat \<bar>d\<bar>]")
    (auto simp: days_in_month_def)

declare normalize_day.simps [simp del]

text \<open>
  The local time zone of the host, by ECMAScript's \<open>LocalTZA\<close>: the offset of local time
  from UTC in milliseconds, at a time value (\<open>offset_at\<close>) and at a local time
  (\<open>offset_of_local\<close>). Which offsets a zone has is left to the host; every result below
  that does not name a zone holds for each.
\<close>

record zone =
  offset_at :: "int \<Rightarrow> int"
  offset_of_local :: "int \<Rightarrow> int"

definition msPerDay :: int where
  "msPerDay = 86400000"

text \<open>
  The time value of local midnight of day number \<open>D\<close>: ECMAScript's \<open>UTC\<close> followed by
  \<open>TimeClip\<close>, which gives \<^verbatim>\<open>NaN\<close> beyond 8.64e15 milliseconds from the epoch.
\<close>

definition midnight :: "zone \<Rightarrow> int \<Rightarrow> num" where
  "midnight z D =
     (let t = D * msPerDay; tv = t - offset_of_local z t
      in if \<bar>tv\<bar> \<le> 8640000000000000 then Some tv else None)"

text \<open>The day number of the local day of a time value: \<open>Day(LocalTime(tv))\<close>.\<close>

definition local_day :: "zone \<Rightarrow> int \<Rightarrow> int" where
  "local_day z tv = (tv + offset_at z tv) div msPerDay"

text \<open>
  A \<^verbatim>\<open>Date\<close> is held by the local calendar day its getters read; \<open>None\<close> is the
  Invalid Date, whose time value is \<^verbatim>\<open>NaN\<close>.

  \<^verbatim>\<open>new Date(y, m, d)\<close>: \<^verbatim>\<open>NaN\<close> in an argument gives the Invalid Date. A year from
  0 to 99 stands for 1900 + y. The day asked for is ECMAScript's \<open>MakeDay\<close>, where months
  outside \<open>0..11\<close> carry into the year. The time value is that of its local midnight,
  and the day read back is the local day of that time value: the calendar day as many
  days from the day asked for as the zone moves it.
\<close>

definition requested_day :: "int \<Rightarrow> int \<Rightarrow> int \<Rightarrow> int" where
  "requested_day y m d =
     (let yr = (if 0 \<le> y \<and> y \<le> 99 then 1900 + y else y)
      in day_number (yr + m div 12) (m mod 12) d)"

definition newDate :: "zone \<Rightarrow> num \<Rightarrow> num \<Rightarrow> num \<Rightarrow> civil option" where
  "newDate z year monthIndex day =
     (case (year, monthIndex, day) of
        (Some y, Some m, Some d) \<Rightarrow>
          (let yr = (if 0 \<le> y \<and> y \<le> 99 then 1900 + y else y);
               D = requested_day y m d
           in case midnight z D of
                None \<Rightarrow> None
              | Some tv \<Rightarrow> Some (normalize_day (yr + m div 12) (m mod 12) (d + (local_day z tv - D))))
      | _ \<Rightarrow> None)"

definition getFullYear :: "civil option \<Rightarrow> num" where
  "getFullYear dt = map_option fullYear dt"

definition getMonth :: "civil option \<Rightarrow> num" where
  "getMonth dt = map_option month dt"

definition getDate :: "civil option \<Rightarrow> num" where
  "getDate dt = map_option date dt"

definition getDay :: "civil option \<Rightarrow> num" where
  "getDay dt = map_option (\<lambda>c. weekday (fullYear c) (month c) (date c)) dt"

section \<open>The calendar grid\<close>

text \<open>\<^verbatim>\<open>formatISODate\<close> (lines 9 to 14).\<close>

definition formatISODate :: "civil option \<Rightarrow> jsstring" where
  "formatISODate dt =
     (let year = getFullYear dt;
          month = padStart 2 0x30 (num_str (map_option (\<lambda>m. m + 1) (getMonth dt)));
          day = padStart 2 0x30 (num_str (getDate dt))
      in num_str year @ ascii ''-'' @ month @ ascii ''-'' @ day)"

text \<open>
  \<^verbatim>\<open>today\<close> (lines 16 to 19). The clock reading \<open>now\<close> is the local calendar day of
  \<^verbatim>\<open>new Date()\<close>, the current time, which is never the Invalid Date.
\<close>

definition today :: "zone \<Rightarrow> civil \<Rightarrow> civil option" where
  "today z now = newDate z (Some (fullYear now)) (Some (month now)) (Some (date now))"

record cell =
  key :: jsstring
  label :: int
  isToday :: bool

text \<open>A grid slot is \<^verbatim>\<open>null\<close> (\<open>None\<close>) or a day's cell.\<close>

record calendar_model =
  monthLabel :: jsstring
  cells :: "cell option list"

text \<open>The first loop (lines 36 to 38).\<close>

function push_empty :: "int \<Rightarrow> num \<Rightarrow> cell option list \<Rightarrow> cell option list" where
  "push_empty i startWeekday cs =
     (if num_less i startWeekday then push_empty (i + 1) startWeekday (cs @ [None]) else cs)"
  by pat_completeness auto
termination
  by (relation "measure (\<lambda>(i, n, cs). case n of None \<Rightarrow> 0 | Some k \<Rightarrow> nat (k - i))")
    (auto simp: num_less_def split: option.splits)

declare push_empty.simps [simp del]

text \<open>The second loop (lines 40 to 47).\<close>

definition day_cell :: "zone \<Rightarrow> civil option \<Rightarrow> num \<Rightarrow> num \<Rightarrow> int \<Rightarrow> cell" where
  "day_cell z tod year monthIndex day =
     (let currentDate = newDate z year monthIndex (Some day)
      in \<lparr>key = formatISODate currentDate, label = day, isToday = (Some day = getDate tod)\<rparr>)"

function push_days ::
  "zone \<Rightarrow> civil option \<Rightarrow> num \<Rightarrow> num \<Rightarrow> int \<Rightarrow> num \<Rightarrow> cell option list \<Rightarrow> cell option list"
  where
  "push_days z tod year monthIndex day daysInMonth cs =
     (if num_le day daysInMonth
      then push_days z tod year monthIndex (day + 1) daysInMonth
             (cs @ [Some (day_cell z tod year monthIndex day)])
      else cs)"
  by pat_completeness auto
termination
  by (relation "measure (\<lambda>(z, tod, y, m, day, n, cs).
        case n of None \<Rightarrow> 0 | Some k \<Rightarrow> nat (k + 1 - day))")
    (auto simp: num_le_def split: option.splits)

declare push_days.simps [simp del]

text \<open>The third loop (lines 49 to 51).\<close>

lemma pad_measure: "0 < n mod 7 \<Longrightarrow> (7 - Suc n mod 7) mod 7 < 7 - n mod (7::nat)"
proof -
  assume a: "0 < n mod 7"
  have b: "n mod 7 < 7" by simp
  show ?thesis
  proof (cases "Suc (n mod 7) = 7")
    case True
    then show ?thesis using a by (simp add: mod_Suc)
  next
    case False
    then have "Suc n mod 7 = Suc (n mod 7)" by (simp add: mod_Suc)
    then show ?thesis using a b False by simp
  qed
qed

function pad_week :: "cell option list \<Rightarrow> cell option list" where
  "pad_week cs = (if length cs mod 7 \<noteq> 0 then pad_week (cs @ [None]) else cs)"
  by pat_completeness auto
termination
  by (relation "measure (\<lambda>cs. (7 - length cs mod 7) mod 7)") (simp_all add: pad_measure)

declare pad_week.simps [simp del]

text \<open>
  \<^verbatim>\<open>calendar\<close> (lines 27 to 57). The label is the year, the code units
  \<open>0xB144 0x20\<close>, the month number and the code unit \<open>0xC6D4\<close>.
\<close>

definition calendar :: "zone \<Rightarrow> civil option \<Rightarrow> calendar_model" where
  "calendar z tod =
     (let year = getFullYear tod;
          monthIndex = getMonth tod;
          firstDay = newDate z year monthIndex (Some 1);
          startWeekday = getDay firstDay;
          daysInMonth = getDate (newDate z year (map_option (\<lambda>m. m + 1) monthIndex) (Some 0));
          cs = push_empty 0 startWeekday [];
          cs = push_days z tod year monthIndex 1 daysInMonth cs;
          cs = pad_week cs
      in \<lparr>monthLabel =
            num_str year @ [0xB144, 0x20] @ num_str (map_option (\<lambda>m. m + 1) monthIndex) @ [0xC6D4],
          cells = cs\<rparr>)"

section \<open>Values received from the backends\<close>

text \<open>
  What \<^verbatim>\<open>resp.json()\<close> returns is an arbitrary JSON value; \<^verbatim>\<open>undefined\<close> is what
  reading an absent member gives. An object is the list of its members in the order of the
  body text. Numbers are integers here: a number with a fraction, or one that the host
  does not hold exactly, is outside this development.
\<close>

datatype jsval =
  JUndefined
  | JNull
  | JBool bool
  | JNum int
  | JStr jsstring
  | JArr "jsval list"
  | JObj "(jsstring \<times> jsval) list"

text \<open>
  What the program's code can throw: a \<^verbatim>\<open>TypeError\<close> of the host (a member read on
  \<^verbatim>\<open>null\<close> or \<^verbatim>\<open>undefined\<close>, a value with no string form), a rejected
  \<^verbatim>\<open>fetch\<close>, the \<^verbatim>\<open>Error\<close> thrown on a non-success status (it carries the status),
  and a rejected \<^verbatim>\<open>resp.json()\<close>.
\<close>

datatype exn = TypeError | FetchFailed | ApiError int | ParseFailed

definition and_then :: "exn + 'a \<Rightarrow> ('a \<Rightarrow> exn + 'b) \<Rightarrow> exn + 'b" where
  "and_then r f = (case r of Inl e \<Rightarrow> Inl e | Inr v \<Rightarrow> f v)"

text \<open>A member of an object; where the body text repeats a name, the last one counts.\<close>

definition member :: "(jsstring \<times> jsval) list \<Rightarrow> jsstring \<Rightarrow> jsval" where
  "member kvs k = (case map_of (rev kvs) k of None \<Rightarrow> JUndefined | Some v \<Rightarrow> v)"

text \<open>The index \<open>i < n\<close> that the property name \<open>k\<close> denotes, if any.\<close>

definition array_index :: "nat \<Rightarrow> jsstring \<Rightarrow> nat option" where
  "array_index n k = find (\<lambda>i. nat_str i = k) [0..<n]"

text \<open>
  \<^verbatim>\<open>v.k\<close> and \<^verbatim>\<open>v[k]\<close>. The names the program reads (\<^verbatim>\<open>answer\<close>, \<^verbatim>\<open>result\<close>,
  \<^verbatim>\<open>contexts\<close>, \<^verbatim>\<open>sources\<close>, \<^verbatim>\<open>intent\<close>, \<^verbatim>\<open>length\<close>, \<^verbatim>\<open>0\<close>, \<^verbatim>\<open>page\<close>,
  \<^verbatim>\<open>page_number\<close>, \<^verbatim>\<open>events\<close>) are not defined on the built-in prototypes apart from
  \<^verbatim>\<open>length\<close> and the indices of strings and arrays, so only own members count.
\<close>

fun get :: "jsval \<Rightarrow> jsstring \<Rightarrow> exn + jsval" where
  "get JUndefined k = Inl TypeError"
| "get JNull k = Inl TypeError"
| "get (JBool b) k = Inr JUndefined"
| "get (JNum n) k = Inr JUndefined"
| "get (JStr s) k =
     Inr (if k = ascii ''length'' then JNum (int (length s))
          else case array_index (length s) k of Some i \<Rightarrow> JStr [s ! i] | None \<Rightarrow> JUndefined)"
| "get (JArr xs) k =
     Inr (if k = ascii ''length'' then JNum (int (length xs))
          else case array_index (length xs) k of Some i \<Rightarrow> xs ! i | None \<Rightarrow> JUndefined)"
| "get (JObj kvs) k = Inr (member kvs k)"

definition nullish :: "jsval \<Rightarrow> bool" where
  "nullish v \<longleftrightarrow> v = JUndefined \<or> v = JNull"

text \<open>\<^verbatim>\<open>a ?? b\<close>, where reading \<open>a\<close> or \<open>b\<close> may throw.\<close>

definition coalesce :: "exn + jsval \<Rightarrow> exn + jsval \<Rightarrow> exn + jsval" where
  "coalesce a b = and_then a (\<lambda>v. if nullish v then b else Inr v)"

text \<open>Truthiness, as \<^verbatim>\<open>if (v)\<close> and \<^verbatim>\<open>v || w\<close> test it.\<close>

fun truthy :: "jsval \<Rightarrow> bool" where
  "truthy JUndefined = False"
| "truthy JNull = False"
| "truthy (JBool b) = b"
| "truthy (JNum n) = (n \<noteq> 0)"
| "truthy (JStr s) = (s \<noteq> [])"
| "truthy (JArr xs) = True"
| "truthy (JObj kvs) = True"

text \<open>
  The string form of a value, as a template literal and \<^verbatim>\<open>+\<close> with a string take it.
  An array joins the string forms of its elements with commas, \<^verbatim>\<open>null\<close> and
  \<^verbatim>\<open>undefined\<close> elements giving the empty string. An object received as JSON has the
  string form \<^verbatim>\<open>[object Object]\<close>, unless it has a member named \<^verbatim>\<open>toString\<close>: that
  member hides the inherited method and is not callable, and the conversion throws.
\<close>

fun ToString :: "jsval \<Rightarrow> exn + jsstring"
  and join :: "jsval list \<Rightarrow> exn + jsstring" where
  "ToString JUndefined = Inr (ascii ''undefined'')"
| "ToString JNull = Inr (ascii ''null'')"
| "ToString (JBool b) = Inr (if b then ascii ''true'' else ascii ''false'')"
| "ToString (JNum n) = Inr (int_str n)"
| "ToString (JStr s) = Inr s"
| "ToString (JArr xs) = join xs"
| "ToString (JObj kvs) =
     (if map_of kvs (ascii ''toString'') = None then Inr (ascii ''[object Object]'')
      else Inl TypeError)"
| "join [] = Inr []"
| "join (x # xs) =
     and_then (if x = JUndefined \<or> x = JNull then Inr [] else ToString x) (\<lambda>s.
       if xs = [] then Inr s else and_then (join xs) (\<lambda>r. Inr (s @ ascii '','' @ r)))"

text \<open>
  \<^verbatim>\<open>v > 0\<close>. A string is compared through the number it denotes; which strings denote a
  positive number is left to the host (\<open>pos\<close>), and every result below holds for each
  such predicate.
\<close>

definition greater_zero :: "(jsstring \<Rightarrow> bool) \<Rightarrow> jsval \<Rightarrow> exn + bool" where
  "greater_zero pos v =
     (case v of
        JUndefined \<Rightarrow> Inr False
      | JNull \<Rightarrow> Inr False
      | JBool b \<Rightarrow> Inr b
      | JNum n \<Rightarrow> Inr (0 < n)
      | JStr s \<Rightarrow> Inr (pos s)
      | JArr xs \<Rightarrow> and_then (ToString v) (\<lambda>s. Inr (pos s))
      | JObj kvs \<Rightarrow> and_then (ToString v) (\<lambda>s. Inr (pos s)))"

section \<open>Reading the answer of the RAG backend\<close>

text \<open>
  The display texts of the source, as code units: the text shown when the response has no
  answer, the two parts of the citation around the page, and the apology of the failure
  path.
\<close>

definition fallback_text :: jsstring where
  "fallback_text =
     [0xC751, 0xB2F5, 0xC744, 0x20, 0xAC00, 0xC838, 0xC624, 0xC9C0, 0x20, 0xBABB, 0xD588,
      0xC5B4, 0xC694, 0x2E]"

definition citation_open :: jsstring where
  "citation_open = [0xA, 0xA, 0x28, 0xCC38, 0xACE0, 0x3A, 0x20, 0x70, 0x2E]"

definition citation_close :: jsstring where
  "citation_close =
     [0x20, 0xB4F1, 0x20, 0xB9E4, 0xB274, 0xC5BC, 0x20, 0xB0B4, 0xC6A9, 0x20, 0xAE30, 0xBC18,
      0x29]"

definition failure_text :: jsstring where
  "failure_text =
     [0xC8C4, 0xC1A1, 0xD574, 0xC694, 0x2C, 0x20, 0x52, 0x41, 0x47, 0x20, 0xC11C, 0xBC84,
      0xC5D0, 0x20, 0xC5F0, 0xACB0, 0xD558, 0xB294, 0x20, 0xB370, 0x20, 0xBB38, 0xC81C,
      0xAC00, 0x20, 0xBC1C, 0xC0DD, 0xD588, 0xC2B5, 0xB2C8, 0xB2E4, 0x2E, 0xA, 0xC11C,
      0xBC84, 0x20, 0xC0C1, 0xD0DC, 0xB97C, 0x20, 0xD655, 0xC778, 0xD55C, 0x20, 0xD6C4,
      0x20, 0xB2E4, 0xC2DC, 0x20, 0xC2DC, 0xB3C4, 0xD574, 0x20, 0xC8FC, 0xC138, 0xC694,
      0x2E]"

text \<open>
  Lines 111 to 123 of \<^verbatim>\<open>handleSubmit\<close>: the local values computed from the parsed
  response \<open>data\<close>.
\<close>

record interpreted =
  answerText :: jsval
  sources :: jsval
  intent :: jsval
  isReminder :: bool
  decoratedAnswer :: jsval

text \<open>Lines 117 to 123: the text shown, given the three values read before.\<close>

definition decorate :: "(jsstring \<Rightarrow> bool) \<Rightarrow> jsval \<Rightarrow> jsval \<Rightarrow> bool \<Rightarrow> exn + jsval" where
  "decorate pos answer srcs reminder =
     (if reminder then Inr answer
      else and_then (get srcs (ascii ''length'')) (\<lambda>len.
        and_then (greater_zero pos len) (\<lambda>nonempty.
          if \<not> nonempty then Inr answer
          else and_then (get srcs (nat_str 0)) (\<lambda>first.
            and_then (coalesce (get first (ascii ''page'')) (get first (ascii ''page_number'')))
              (\<lambda>pageInfo.
                if truthy pageInfo
                then and_then (ToString pageInfo) (\<lambda>p.
                       and_then (ToString answer) (\<lambda>a.
                         Inr (JStr (a @ citation_open @ p @ citation_close))))
                else Inr answer)))))"

definition interpret_response :: "(jsstring \<Rightarrow> bool) \<Rightarrow> jsval \<Rightarrow> exn + interpreted" where
  "interpret_response pos data =
     and_then (coalesce (coalesce (get data (ascii ''answer'')) (get data (ascii ''result'')))
                 (Inr (JStr fallback_text))) (\<lambda>answer.
     and_then (coalesce (coalesce (get data (ascii ''contexts'')) (get data (ascii ''sources'')))
                 (Inr (JArr []))) (\<lambda>srcs.
     and_then (coalesce (get data (ascii ''intent'')) (Inr (JStr (ascii ''rag'')))) (\<lambda>intnt.
     let reminder = (intnt = JStr (ascii ''reminder'')) in
     and_then (decorate pos answer srcs reminder) (\<lambda>decorated.
       Inr \<lparr>answerText = answer, sources = srcs, intent = intnt, isReminder = reminder,
            decoratedAnswer = decorated\<rparr>))))"

section \<open>The state of the component and what reaches it from outside\<close>

text \<open>
  A chat message (lines 86 to 91, 125 to 131 and 139 to 145). The content of an agent
  message is whatever value the response gave as its answer, a string in the intended
  use. The field \<open>id'\<close> is the \<^verbatim>\<open>id\<close> of the source.
\<close>

record message =
  id' :: jsstring
  role :: jsstring
  name :: jsstring
  content :: jsval
  variant :: "jsstring option"

text \<open>The four state variables of the component (lines 23 to 25 and 59).\<close>

record state =
  messages :: "message list"
  question :: jsstring
  loading :: bool
  calendarEvents :: jsval

text \<open>
  How a \<^verbatim>\<open>fetch\<close> ends: its promise rejects, or it resolves to a response with a status
  whose body parses as JSON (\<open>Some\<close>) or does not (\<open>None\<close>).
\<close>

datatype response = Rejected | Response int "jsval option"

definition ok :: "int \<Rightarrow> bool" where
  "ok status \<longleftrightarrow> 200 \<le> status \<and> status \<le> 299"

text \<open>What the component does to the outside, in the order it does it.\<close>

datatype effect = PreventDefault | PostRag jsstring | GetEvents | ConsoleError exn

section \<open>The event store\<close>

text \<open>The \<^verbatim>\<open>try\<close> block of \<^verbatim>\<open>fetchEvents\<close> (lines 64 to 69): the value it stores.\<close>

definition fetchEvents_try :: "response \<Rightarrow> exn + jsval" where
  "fetchEvents_try resp =
     (case resp of
        Rejected \<Rightarrow> Inl FetchFailed
      | Response status body \<Rightarrow>
          if \<not> ok status then Inl (ApiError status)
          else (case body of
                  None \<Rightarrow> Inl ParseFailed
                | Some data \<Rightarrow>
                    and_then (get data (ascii ''events'')) (\<lambda>events.
                      Inr (if truthy events then events else JArr []))))"

text \<open>
  \<^verbatim>\<open>fetchEvents\<close> from the point where its request settles (lines 65 to 73), and the
  whole of it (lines 62 to 74). The result is \<open>Inl\<close> if the call throws to its caller.
\<close>

definition fetchEvents_settle :: "response \<Rightarrow> state \<Rightarrow> (exn + state) \<times> effect list" where
  "fetchEvents_settle resp s =
     (case fetchEvents_try resp of
        Inr events \<Rightarrow> (Inr (s\<lparr>calendarEvents := events\<rparr>), [])
      | Inl err \<Rightarrow> (Inr (s\<lparr>calendarEvents := JArr []\<rparr>), [ConsoleError err]))"


section \<open>The chat session\<close>

definition userMessage :: "int \<Rightarrow> jsstring \<Rightarrow> message" where
  "userMessage now trimmed =
     \<lparr>id' = ascii ''user-'' @ int_str now, role = ascii ''user'', name = [0xB098],
      content = JStr trimmed, variant = None\<rparr>"

definition agentMessage :: "int \<Rightarrow> interpreted \<Rightarrow> message" where
  "agentMessage now r =
     \<lparr>id' = ascii ''agent-'' @ int_str now, role = ascii ''agent'', name = ascii ''Mindual'',
      content = decoratedAnswer r,
      variant = (if isReminder r then Some (ascii ''reminder'') else None)\<rparr>"

definition failureMessage :: "int \<Rightarrow> message" where
  "failureMessage now =
     \<lparr>id' = ascii ''agent-'' @ int_str now, role = ascii ''agent'', name = ascii ''Mindual'',
      content = JStr failure_text, variant = None\<rparr>"

text \<open>
  \<^verbatim>\<open>handleSubmit\<close> is an asynchronous function. It runs in up to three parts, each
  ending where the function returns or waits: for the answer of the RAG backend
  (line 98), or for \<^verbatim>\<open>fetchEvents\<close> (line 135).
\<close>

datatype turn = Finished | AwaitRag | AwaitEvents

text \<open>Lines 82 to 104, with the clock reading \<open>now\<close> of line 87.\<close>

definition handleSubmit_call :: "int \<Rightarrow> state \<Rightarrow> turn \<times> state \<times> effect list" where
  "handleSubmit_call now s =
     (let trimmed = trim (question s) in
      if trimmed = [] \<or> loading s then (Finished, s, [PreventDefault])
      else (AwaitRag,
            s\<lparr>messages := messages s @ [userMessage now trimmed], question := [],
              loading := True\<rparr>,
            [PreventDefault, PostRag trimmed]))"

text \<open>Lines 98 to 123: the settled request, the status check, the parsed body and its reading.\<close>

definition rag_try :: "(jsstring \<Rightarrow> bool) \<Rightarrow> response \<Rightarrow> exn + interpreted" where
  "rag_try pos resp =
     (case resp of
        Rejected \<Rightarrow> Inl FetchFailed
      | Response status body \<Rightarrow>
          if \<not> ok status then Inl (ApiError status)
          else (case body of
                  None \<Rightarrow> Inl ParseFailed
                | Some data \<Rightarrow> interpret_response pos data))"

text \<open>The \<^verbatim>\<open>catch\<close> block (lines 137 to 146) and the \<^verbatim>\<open>finally\<close> block (line 148).\<close>

definition catch_block :: "exn \<Rightarrow> int \<Rightarrow> state \<Rightarrow> state \<times> effect list" where
  "catch_block err now s = (s\<lparr>messages := messages s @ [failureMessage now]\<rparr>, [ConsoleError err])"

definition finally_block :: "state \<Rightarrow> state" where
  "finally_block s = s\<lparr>loading := False\<rparr>"

text \<open>
  From the answer of the RAG backend to the end of the function or to the wait of
  line 135; \<open>now\<close> is the clock reading of line 126 or of line 140.
\<close>

definition handleSubmit_answered ::
  "(jsstring \<Rightarrow> bool) \<Rightarrow> response \<Rightarrow> int \<Rightarrow> state \<Rightarrow> turn \<times> state \<times> effect list" where
  "handleSubmit_answered pos resp now s =
     (case rag_try pos resp of
        Inl err \<Rightarrow>
          (case catch_block err now s of (s', es) \<Rightarrow> (Finished, finally_block s', es))
      | Inr r \<Rightarrow>
          (let s' = s\<lparr>messages := messages s @ [agentMessage now r]\<rparr> in
           if isReminder r then (AwaitEvents, s', [GetEvents])
           else (Finished, finally_block s', [])))"

text \<open>
  From the end of \<^verbatim>\<open>fetchEvents\<close> (line 135) to the end of the function; \<open>now\<close> is the
  clock reading of line 140, taken if \<^verbatim>\<open>fetchEvents\<close> throws.
\<close>

definition handleSubmit_refreshed :: "response \<Rightarrow> int \<Rightarrow> state \<Rightarrow> turn \<times> state \<times> effect list" where
  "handleSubmit_refreshed resp now s =
     (case fetchEvents_settle resp s of
        (Inr s', es) \<Rightarrow> (Finished, finally_block s', es)
      | (Inl err, es) \<Rightarrow>
          (case catch_block err now s of (s', es') \<Rightarrow> (Finished, finally_block s', es @ es')))"

text \<open>
  One whole call of \<^verbatim>\<open>handleSubmit\<close> with nothing else happening in between, given
  what the outside supplies: the clock readings and how the two requests end.
\<close>

record world =
  clock_call :: int
  rag_response :: response
  clock_answer :: int
  events_response :: response
  clock_catch :: int

definition handleSubmit :: "(jsstring \<Rightarrow> bool) \<Rightarrow> world \<Rightarrow> state \<Rightarrow> state \<times> effect list" where
  "handleSubmit pos w s =
     (case handleSubmit_call (clock_call w) s of
        (AwaitRag, s1, es1) \<Rightarrow>
          (case handleSubmit_answered pos (rag_response w) (clock_answer w) s1 of
             (AwaitEvents, s2, es2) \<Rightarrow>
               (case handleSubmit_refreshed (events_response w) (clock_catch w) s2 of
                  (t, s3, es3) \<Rightarrow> (s3, es1 @ es2 @ es3))
           | (t, s2, es2) \<Rightarrow> (s2, es1 @ es2))
      | (t, s1, es1) \<Rightarrow> (s1, es1))"

section \<open>The session as a transition system\<close>

text \<open>
  Between the parts of \<^verbatim>\<open>handleSubmit\<close> other things happen. A configuration is the
  state of the component together with the calls that wait: calls of \<^verbatim>\<open>handleSubmit\<close>
  waiting for the RAG backend, calls waiting for \<^verbatim>\<open>fetchEvents\<close>, and the call of
  \<^verbatim>\<open>fetchEvents\<close> made when the component mounts (lines 77 to 79); and the effects
  so far. Every handler runs on the state as it then is: the component is rendered
  again after each change of its state, before the next event is handled.
\<close>

record config =
  st :: state
  awaiting_rag :: nat
  awaiting_events :: nat
  awaiting_mount :: nat
  trace :: "effect list"

definition initial :: config where
  "initial =
     \<lparr>st = \<lparr>messages = [], question = [], loading = False, calendarEvents = JArr []\<rparr>,
      awaiting_rag = 0, awaiting_events = 0, awaiting_mount = 1, trace = [GetEvents]\<rparr>"

text \<open>
  The events: the user edits the draft (line 218; the field is disabled while
  \<^verbatim>\<open>loading\<close>, line 220), the form is submitted (line 211), a waiting request settles.
\<close>

datatype event =
  Change jsstring
  | Submit int
  | RagSettled response int
  | EventsSettled response int
  | MountSettled response

text \<open>The configuration after an event, \<open>None\<close> if the event cannot happen.\<close>

definition fire :: "(jsstring \<Rightarrow> bool) \<Rightarrow> event \<Rightarrow> config \<Rightarrow> config option" where
  "fire pos e c =
     (case e of
        Change v \<Rightarrow>
          if loading (st c) then None else Some (c\<lparr>st := (st c)\<lparr>question := v\<rparr>\<rparr>)
      | Submit now \<Rightarrow>
          (case handleSubmit_call now (st c) of
             (t, s', es) \<Rightarrow>
               Some (c\<lparr>st := s',
                      awaiting_rag := awaiting_rag c + (if t = AwaitRag then 1 else 0),
                      trace := trace c @ es\<rparr>))
      | RagSettled resp now \<Rightarrow>
          if awaiting_rag c = 0 then None
          else (case handleSubmit_answered pos resp now (st c) of
                  (t, s', es) \<Rightarrow>
                    Some (c\<lparr>st := s', awaiting_rag := awaiting_rag c - 1,
                           awaiting_events :=
                             awaiting_events c + (if t = AwaitEvents then 1 else 0),
                           trace := trace c @ es\<rparr>))
      | EventsSettled resp now \<Rightarrow>
          if awaiting_events c = 0 then None
          else (case handleSubmit_refreshed resp now (st c) of
                  (t, s', es) \<Rightarrow>
                    Some (c\<lparr>st := s', awaiting_events := awaiting_events c - 1,
                           trace := trace c @ es\<rparr>))
      | MountSettled resp \<Rightarrow>
          if awaiting_mount c = 0 then None
          else (case fetchEvents_settle resp (st c) of
                  (Inr s', es) \<Rightarrow>
                    Some (c\<lparr>st := s', awaiting_mount := awaiting_mount c - 1,
                           trace := trace c @ es\<rparr>)
                | (Inl err, es) \<Rightarrow>
                    Some (c\<lparr>awaiting_mount := awaiting_mount c - 1, trace := trace c @ es\<rparr>)))"

fun run :: "(jsstring \<Rightarrow> bool) \<Rightarrow> event list \<Rightarrow> config \<Rightarrow> config option" where
  "run pos [] c = Some c"
| "run pos (e # es) c = (case fire pos e c of None \<Rightarrow> None | Some c' \<Rightarrow> run pos es c')"

section \<open>Notions used in the statements\<close>

text \<open>
  The page value of the first of a sequence of source fragments: its \<^verbatim>\<open>page\<close>, or its
  \<^verbatim>\<open>page_number\<close> where \<^verbatim>\<open>page\<close> is absent or \<^verbatim>\<open>null\<close>. It is \<^verbatim>\<open>undefined\<close>
  for the empty sequence, and where reading the fragment throws.
\<close>

fun first_page :: "jsval list \<Rightarrow> jsval" where
  "first_page [] = JUndefined"
| "first_page (f # fs) =
     (case coalesce (get f (ascii ''page'')) (get f (ascii ''page_number'')) of
        Inr p \<Rightarrow> p
      | Inl e \<Rightarrow> JUndefined)"

text \<open>
  The values that lines 111 to 119 compute from a response, as plain values: \<open>read\<close> is a
  member read that gives \<^verbatim>\<open>undefined\<close> where the read would throw, \<open>or_else\<close> is
  \<^verbatim>\<open>??\<close> on values.
\<close>

definition read :: "jsval \<Rightarrow> jsstring \<Rightarrow> jsval" where
  "read v k = (case get v k of Inr x \<Rightarrow> x | Inl e \<Rightarrow> JUndefined)"

definition or_else :: "jsval \<Rightarrow> jsval \<Rightarrow> jsval" where
  "or_else a b = (if nullish a then b else a)"

definition answer_of :: "jsval \<Rightarrow> jsval" where
  "answer_of data =
     or_else (or_else (read data (ascii ''answer'')) (read data (ascii ''result'')))
       (JStr fallback_text)"

definition sources_of :: "jsval \<Rightarrow> jsval" where
  "sources_of data =
     or_else (or_else (read data (ascii ''contexts'')) (read data (ascii ''sources''))) (JArr [])"

definition intent_of :: "jsval \<Rightarrow> jsval" where
  "intent_of data = or_else (read data (ascii ''intent'')) (JStr (ascii ''rag''))"

definition page_of :: "jsval \<Rightarrow> jsval" where
  "page_of f = or_else (read f (ascii ''page'')) (read f (ascii ''page_number''))"

definition has_string_form :: "jsval \<Rightarrow> bool" where
  "has_string_form v = (case ToString v of Inr s \<Rightarrow> True | Inl e \<Rightarrow> False)"

text \<open>
  The responses that are read without an exception. The response itself is not
  \<^verbatim>\<open>null\<close>; and it is a reminder, or else: the length of its sources can be compared
  with zero, and where it is greater, the first fragment is not \<^verbatim>\<open>null\<close> or absent,
  and where the page value of that fragment is truthy, it and the answer have a string
  form.
\<close>

definition reads_normally :: "(jsstring \<Rightarrow> bool) \<Rightarrow> jsval \<Rightarrow> bool" where
  "reads_normally pos data \<longleftrightarrow>
     \<not> nullish data \<and>
     (intent_of data = JStr (ascii ''reminder'') \<or>
      (case greater_zero pos (read (sources_of data) (ascii ''length'')) of
         Inl e \<Rightarrow> False
       | Inr nonempty \<Rightarrow>
           \<not> nonempty \<or>
           \<not> nullish (read (sources_of data) (nat_str 0)) \<and>
           (truthy (page_of (read (sources_of data) (nat_str 0))) \<longrightarrow>
              has_string_form (page_of (read (sources_of data) (nat_str 0))) \<and>
              has_string_form (answer_of data))))"

text \<open>
  The concrete runs below need a host predicate for \<open>greater_zero\<close>. None of them compares
  a string with zero, so the choice does not matter; this one holds of no string.
\<close>

definition no_numeric_strings :: "jsstring \<Rightarrow> bool" where
  "no_numeric_strings s = False"

text \<open>A response body with the intent \<^verbatim>\<open>reminder\<close>, for the concrete runs.\<close>

definition reminder_answer :: jsval where
  "reminder_answer =
     JObj [(ascii ''answer'', JStr (ascii ''ok'')), (ascii ''intent'', JStr (ascii ''reminder''))]"

text \<open>The calls of \<^verbatim>\<open>handleSubmit\<close> that wait are one while \<^verbatim>\<open>loading\<close> is set, and none otherwise.\<close>

definition in_flight_ok :: "config \<Rightarrow> bool" where
  "in_flight_ok c \<longleftrightarrow> awaiting_rag c + awaiting_events c = (if loading (st c) then 1 else 0)"

text \<open>Reading a decimal numeral back, with its sign.\<close>

definition digit_value :: "code_unit \<Rightarrow> nat" where
  "digit_value c = unat c - 48"

definition dec :: "jsstring \<Rightarrow> nat" where
  "dec s = foldl (\<lambda>n c. 10 * n + digit_value c) 0 s"

definition signed_dec :: "jsstring \<Rightarrow> int" where
  "signed_dec s =
     (case s of [] \<Rightarrow> 0 | c # cs \<Rightarrow> if c = 0x2D then - int (dec cs) else int (dec s))"

text \<open>
  The creation time an id carries: the number after its first hyphen, which is the clock
  reading \<^verbatim>\<open>Date.now()\<close> the id was built from.
\<close>

definition id_clock :: "jsstring \<Rightarrow> int" where
  "id_clock i = signed_dec (drop 1 (dropWhile (\<lambda>c. c \<noteq> 0x2D) i))"

definition stamps :: "state \<Rightarrow> int list" where
  "stamps s = map (\<lambda>m. id_clock (id' m)) (messages s)"

text \<open>
  The clock readings \<^verbatim>\<open>Date.now()\<close> that an event makes the program take, each with
  the role it is put after in an id: an accepted submission reads the clock once, for
  the id of the user message (line 87); a call that resumes with the answer of the RAG
  backend reads it once, for the id of the agent message (line 126) or of the failure
  message (line 140). A rejected submission returns at line 84, before any reading, and
  no other event reads the clock.
\<close>

definition created :: "event \<Rightarrow> config \<Rightarrow> (jsstring \<times> int) list" where
  "created e c =
     (case e of
        Submit now \<Rightarrow>
          if trim (question (st c)) = [] \<or> loading (st c) then [] else [(ascii ''user'', now)]
      | RagSettled resp now \<Rightarrow> if awaiting_rag c = 0 then [] else [(ascii ''agent'', now)]
      | _ \<Rightarrow> [])"

text \<open>The readings taken along a sequence of events, in the order they are taken.\<close>

fun taken :: "(jsstring \<Rightarrow> bool) \<Rightarrow> event list \<Rightarrow> config \<Rightarrow> (jsstring \<times> int) list" where
  "taken pos [] c = []"
| "taken pos (e # es) c =
     (case fire pos e c of None \<Rightarrow> [] | Some c' \<Rightarrow> created e c @ taken pos es c')"

text \<open>The id built from a role and a reading: \<^verbatim>\<open>`user-${Date.now()}`\<close>, \<^verbatim>\<open>`agent-${Date.now()}`\<close>.\<close>

definition id_of :: "jsstring \<times> int \<Rightarrow> jsstring" where
  "id_of p = fst p @ ascii ''-'' @ int_str (snd p)"

text \<open>
  \<^verbatim>\<open>new Date(y, m, d)\<close> is \<^emph>\<open>settled\<close> in a zone when the local midnight asked for is a
  time value and the local day read back from it is the day asked for.
\<close>

definition settled :: "zone \<Rightarrow> int \<Rightarrow> int \<Rightarrow> int \<Rightarrow> bool" where
  "settled z y m d =
     (case midnight z (requested_day y m d) of
        None \<Rightarrow> False
      | Some tv \<Rightarrow> local_day z tv = requested_day y m d)"

text \<open>A zone with one offset at all times, and the zone of the interface, UTC+9.\<close>

definition fixed_zone :: "int \<Rightarrow> zone" where
  "fixed_zone off = \<lparr>offset_at = (\<lambda>t. off), offset_of_local = (\<lambda>t. off)\<rparr>"

definition seoul :: zone where
  "seoul = fixed_zone 32400000"

text \<open>
  A zone that moves from UTC-10 to UTC+14 at the time value 788868000000, as
  Pacific/Kiritimati did: the local day 31 December 1994 does not exist there. A local
  time in the gap is read with the offset before the move.
\<close>

definition kiritimati :: zone where
  "kiritimati =
     \<lparr>offset_at = (\<lambda>t. if t < 788868000000 then - 36000000 else 50400000),
      offset_of_local = (\<lambda>t. if t < 788868000000 + 50400000 then - 36000000 else 50400000)\<rparr>"

text \<open>
  The two numbers that bound the first two loops of \<^verbatim>\<open>calendar\<close> (lines 32 and 33), and
  the number of times a loop runs whose counter goes up to such a number: not at all
  when it is \<^verbatim>\<open>NaN\<close>.
\<close>

definition startWeekday :: "zone \<Rightarrow> civil option \<Rightarrow> num" where
  "startWeekday z tod = getDay (newDate z (getFullYear tod) (getMonth tod) (Some 1))"

definition daysInMonth :: "zone \<Rightarrow> civil option \<Rightarrow> num" where
  "daysInMonth z tod =
     getDate (newDate z (getFullYear tod) (map_option (\<lambda>m. m + 1) (getMonth tod)) (Some 0))"

definition loop_count :: "num \<Rightarrow> nat" where
  "loop_count n = (case n of None \<Rightarrow> 0 | Some k \<Rightarrow> nat k)"

section \<open>The calendar grid: correctness\<close>

lemma push_empty_NaN: "push_empty i None cs = cs"
  by (subst push_empty.simps) (simp add: num_less_def)

lemma push_empty_eq: "push_empty i (Some n) cs = cs @ replicate (nat (n - i)) None"
proof (induction i "Some n :: num" cs rule: push_empty.induct)
  case (1 i cs)
  show ?case
  proof (cases "i < n")
    case True
    then have "nat (n - i) = Suc (nat (n - (i + 1)))" by simp
    with True "1" show ?thesis
      by (subst push_empty.simps) (simp add: num_less_def replicate_append_same)
  next
    case False
    then show ?thesis by (subst push_empty.simps) (simp add: num_less_def)
  qed
qed

lemma push_days_NaN: "push_days z tod y m day None cs = cs"
  by (subst push_days.simps) (simp add: num_le_def)

lemma push_days_eq:
  "push_days z tod y m day (Some n) cs = cs @ map (\<lambda>d. Some (day_cell z tod y m d)) [day..n]"
proof (induction z tod y m day "Some n :: num" cs rule: push_days.induct)
  case (1 z tod y m day cs)
  show ?case
  proof (cases "day \<le> n")
    case True
    with "1" show ?thesis
      by (subst push_days.simps) (simp add: num_le_def upto_rec1 [of day n])
  next
    case False
    then show ?thesis by (subst push_days.simps) (simp add: num_le_def)
  qed
qed

lemma pad_week_eq: "pad_week cs = cs @ replicate ((7 - length cs mod 7) mod 7) None"
proof (induction cs rule: pad_week.induct)
  case (1 cs)
  show ?case
  proof (cases "length cs mod 7 = 0")
    case True
    then show ?thesis by (subst pad_week.simps) simp
  next
    case False
    then have pos: "0 < length cs mod 7" by simp
    have lt: "length cs mod 7 < 7" by simp
    have "(7 - length cs mod 7) mod 7 = Suc ((7 - Suc (length cs) mod 7) mod 7)"
    proof (cases "Suc (length cs mod 7) = 7")
      case True
      then show ?thesis by (simp add: mod_Suc)
    next
      case False
      then have "Suc (length cs) mod 7 = Suc (length cs mod 7)" by (simp add: mod_Suc)
      then show ?thesis using pos lt False by simp
    qed
    with False "1" show ?thesis
      by (subst pad_week.simps) (simp add: replicate_append_same)
  qed
qed

lemma days_in_month_bounds: "28 \<le> days_in_month y m \<and> days_in_month y m \<le> 31"
  by (simp add: days_in_month_def)

lemma normalize_day_in_month:
  "1 \<le> d \<Longrightarrow> d \<le> days_in_month y m \<Longrightarrow>
   normalize_day y m d = \<lparr>fullYear = y, month = m, date = d\<rparr>"
  by (subst normalize_day.simps) simp

lemma normalize_day_zero:
  assumes "0 \<le> m" "m \<le> 11"
  shows "normalize_day y m 0 =
     (if m = 0 then \<lparr>fullYear = y - 1, month = 11, date = 31\<rparr>
      else \<lparr>fullYear = y, month = m - 1, date = days_in_month y (m - 1)\<rparr>)"
proof (cases "m = 0")
  case True
  have "days_in_month (y - 1) 11 = 31" by (simp add: days_in_month_def)
  then have "normalize_day (y - 1) 11 31 = \<lparr>fullYear = y - 1, month = 11, date = 31\<rparr>"
    by (simp add: normalize_day_in_month)
  with True show ?thesis
    by (subst normalize_day.simps) (simp add: days_in_month_def)
next
  case False
  have "1 \<le> days_in_month y (m - 1)" using days_in_month_bounds [of y "m - 1"] by simp
  then have "normalize_day y (m - 1) (days_in_month y (m - 1)) =
      \<lparr>fullYear = y, month = m - 1, date = days_in_month y (m - 1)\<rparr>"
    by (simp add: normalize_day_in_month)
  with False show ?thesis
    by (subst normalize_day.simps) (simp add: Let_def)
qed

text \<open>A settled \<^verbatim>\<open>new Date(y, m, d)\<close> reads back the day asked for.\<close>

lemma newDate_settled:
  assumes "settled z y m d"
  shows "newDate z (Some y) (Some m) (Some d) =
     Some (normalize_day ((if 0 \<le> y \<and> y \<le> 99 then 1900 + y else y) + m div 12) (m mod 12) d)"
proof -
  obtain tv where tv: "midnight z (requested_day y m d) = Some tv"
    and rd: "local_day z tv = requested_day y m d"
    using assms by (auto simp: settled_def split: option.splits)
  show ?thesis by (simp add: newDate_def Let_def tv rd)
qed

lemma newDate_in_month:
  assumes "settled z y m d" "y < 0 \<or> 99 < y" "0 \<le> m" "m \<le> 11" "1 \<le> d" "d \<le> days_in_month y m"
  shows "newDate z (Some y) (Some m) (Some d) = Some \<lparr>fullYear = y, month = m, date = d\<rparr>"
proof -
  have "m div 12 = 0" "m mod 12 = m" using assms by simp_all
  then show ?thesis using assms by (auto simp: newDate_settled normalize_day_in_month)
qed

lemma newDate_day_zero_next:
  assumes "settled z y (m + 1) 0" "y < 0 \<or> 99 < y" "0 \<le> m" "m \<le> 11"
  shows "newDate z (Some y) (Some (m + 1)) (Some 0) =
     Some \<lparr>fullYear = y, month = m, date = days_in_month y m\<rparr>"
proof (cases "m = 11")
  case True
  then show ?thesis using assms
    by (auto simp: newDate_settled normalize_day_zero days_in_month_def)
next
  case False
  then have "(m + 1) div 12 = 0" "(m + 1) mod 12 = m + 1" using assms by simp_all
  then show ?thesis using assms False
    by (auto simp: newDate_settled normalize_day_zero)
qed

text \<open>What \<open>today\<close> returns for a valid clock reading whose day is settled.\<close>

lemma today_cases:
  assumes "valid_date now" "settled z (fullYear now) (month now) (date now)"
  shows "\<exists>t. today z now = Some t \<and> valid_date t \<and> (fullYear t < 0 \<or> 99 < fullYear t)"
proof -
  define y m d where "y = fullYear now" and "m = month now" and "d = date now"
  define yr where "yr = (if 0 \<le> y \<and> y \<le> 99 then 1900 + y else y)"
  define t where "t = normalize_day yr m d"
  have v: "0 \<le> m" "m \<le> 11" "1 \<le> d" "d \<le> days_in_month y m"
    using assms(1) by (simp_all add: valid_date_def y_def m_def d_def)
  have mm: "m div 12 = 0" "m mod 12 = m" using v by simp_all
  have tod: "today z now = Some t"
    using newDate_settled [OF assms(2)]
    by (simp add: today_def t_def yr_def y_def m_def d_def mm [unfolded m_def])
  have yr: "yr < 0 \<or> 99 < yr" by (auto simp: yr_def)
  have "valid_date t \<and> (fullYear t < 0 \<or> 99 < fullYear t)"
  proof (cases "d \<le> days_in_month yr m")
    case True
    then have "t = \<lparr>fullYear = yr, month = m, date = d\<rparr>"
      using v by (simp add: t_def normalize_day_in_month)
    then show ?thesis using yr v True by (simp add: valid_date_def)
  next
    case False
    then have ne: "yr \<noteq> y" using v by auto
    then have y99: "0 \<le> y" "y \<le> 99" "yr = 1900 + y" by (simp_all add: yr_def split: if_splits)
    have m1: "m = 1" using False v
      by (simp add: days_in_month_def split: if_splits)
    have d29: "d = 29" "days_in_month yr m = 28" using False v m1
      by (simp_all add: days_in_month_def split: if_splits)
    have "normalize_day yr 1 29 = normalize_day yr 2 1"
      using d29 m1 by (subst normalize_day.simps) simp
    also have "\<dots> = \<lparr>fullYear = yr, month = 2, date = 1\<rparr>"
      by (simp add: normalize_day_in_month days_in_month_def)
    finally show ?thesis using m1 d29 yr
      by (simp add: t_def valid_date_def days_in_month_def)
  qed
  with tod show ?thesis by simp
qed

text \<open>
  The fields a \<^verbatim>\<open>Date\<close> reads are those of the local day of its time value:
  carrying a day of the month into the neighbouring months keeps the day number and
  ends at a day inside its month.
\<close>

lemma div_step:
  fixes n d :: int
  assumes "0 < d"
  shows "(n + 1) div d = n div d + (if (n + 1) mod d = 0 then 1 else 0)"
proof -
  define q r where "q = n div d" and "r = n mod d"
  have n: "n = d * q + r" by (simp add: q_def r_def)
  have r: "0 \<le> r" "r < d" using assms by (simp_all add: r_def)
  show ?thesis
  proof (cases "r + 1 = d")
    case True
    have "d * (q + 1) = d * q + d" by (simp add: distrib_left)
    with n True have e: "n + 1 = d * (q + 1) + 0" by simp
    have "(n + 1) div d = q + 1" using assms by (intro int_div_pos_eq [OF e]) simp_all
    moreover have "(n + 1) mod d = 0" using assms by (intro int_mod_pos_eq [OF e]) simp_all
    ultimately show ?thesis by (simp add: q_def)
  next
    case False
    from n have e: "n + 1 = d * q + (r + 1)" by simp
    have "(n + 1) div d = q" using r False by (intro int_div_pos_eq [OF e]) simp_all
    moreover have "(n + 1) mod d = r + 1" using r False by (intro int_mod_pos_eq [OF e]) simp_all
    ultimately show ?thesis using r by (simp add: q_def)
  qed
qed

lemma DayFromYear_next:
  "DayFromYear (y + 1) = DayFromYear y + (if leap_year y then 366 else 365)"
proof -
  define A B C :: int where "A = (if y mod 4 = 0 then 1 else 0)"
    and "B = (if y mod 100 = 0 then 1 else 0)" and "C = (if y mod 400 = 0 then 1 else 0)"
  define p q r where "p = (y - 1969) div 4" and "q = (y - 1901) div 100"
    and "r = (y - 1601) div 400"
  have a: "(y + 1 - 1969) div 4 = p + A"
  proof -
    have "y - 1969 + 1 = y - 1968" "y + 1 - 1969 = y - 1968" by simp_all
    moreover have "(y - 1968) mod 4 = y mod 4"
      using mod_diff_eq [of y 4 1968, symmetric] by simp
    ultimately show ?thesis using div_step [of 4 "y - 1969"] by (simp only: p_def A_def; simp)
  qed
  have b: "(y + 1 - 1901) div 100 = q + B"
  proof -
    have "y - 1901 + 1 = y - 1900" "y + 1 - 1901 = y - 1900" by simp_all
    moreover have "(y - 1900) mod 100 = y mod 100"
      using mod_diff_eq [of y 100 1900, symmetric] by simp
    ultimately show ?thesis using div_step [of 100 "y - 1901"] by (simp only: q_def B_def; simp)
  qed
  have c: "(y + 1 - 1601) div 400 = r + C"
  proof -
    have "y - 1601 + 1 = y - 1600" "y + 1 - 1601 = y - 1600" by simp_all
    moreover have "(y - 1600) mod 400 = y mod 400"
      using mod_diff_eq [of y 400 1600, symmetric] by simp
    ultimately show ?thesis using div_step [of 400 "y - 1601"] by (simp only: r_def C_def; simp)
  qed
  have d1: "y mod 100 = 0" if "y mod 400 = 0"
  proof -
    from that have "400 dvd y" by (simp add: dvd_eq_mod_eq_0)
    moreover have "(100::int) dvd 400" by simp
    ultimately have "100 dvd y" by (rule dvd_trans [rotated])
    then show ?thesis by (simp add: dvd_eq_mod_eq_0)
  qed
  have d2: "y mod 4 = 0" if "y mod 100 = 0"
  proof -
    from that have "100 dvd y" by (simp add: dvd_eq_mod_eq_0)
    moreover have "(4::int) dvd 100" by simp
    ultimately have "4 dvd y" by (rule dvd_trans [rotated])
    then show ?thesis by (simp add: dvd_eq_mod_eq_0)
  qed
  have leap: "(if leap_year y then 366 else 365) = 365 + A - B + C"
  proof (cases "y mod 400 = 0")
    case True
    then show ?thesis using d1 [OF True] d2 [OF d1 [OF True]]
      by (simp only: leap_year_def A_def B_def C_def; simp)
  next
    case n400: False
    show ?thesis
    proof (cases "y mod 100 = 0")
      case True
      then show ?thesis using n400 d2 [OF True]
        by (simp only: leap_year_def A_def B_def C_def; simp)
    next
      case n100: False
      show ?thesis
      proof (cases "y mod 4 = 0")
        case True
        then show ?thesis using n400 n100
          by (simp only: leap_year_def A_def B_def C_def; simp)
      next
        case False
        then show ?thesis using n400 n100
          by (simp only: leap_year_def A_def B_def C_def; simp)
      qed
    qed
  qed
  have n1: "DayFromYear (y + 1) = 365 * (y + 1 - 1970) + (p + A) - (q + B) + (r + C)"
    by (simp only: DayFromYear_def a b c)
  have n0: "DayFromYear y = 365 * (y - 1970) + p - q + r"
    by (simp only: DayFromYear_def p_def q_def r_def)
  show ?thesis by (simp only: n1 n0 leap; simp)
qed

lemma days_before_month_Suc:
  "0 \<le> m \<Longrightarrow> days_before_month y (m + 1) = days_before_month y m + days_in_month y m"
  by (simp add: days_before_month_def upto_rec2 [of 0 m])

lemma days_before_month_12:
  "days_before_month y 11 + days_in_month y 11 = (if leap_year y then 366 else 365)"
  by (simp add: days_before_month_def days_in_month_def upto_rec1)

lemma days_before_month_0: "days_before_month y 0 = 0"
  by (simp add: days_before_month_def)

lemma day_number_normalize_day:
  "0 \<le> m \<Longrightarrow> m \<le> 11 \<Longrightarrow>
   (let c = normalize_day y m d
    in day_number (fullYear c) (month c) (date c) = day_number y m d \<and> valid_date c)"
proof (induction y m d rule: normalize_day.induct)
  case (1 y m d)
  show ?case
  proof (cases "d < 1")
    case True
    show ?thesis
    proof (cases "m = 0")
      case m0: True
      have ih: "let c = normalize_day (y - 1) 11 (d + days_in_month (y - 1) 11)
        in day_number (fullYear c) (month c) (date c) =
           day_number (y - 1) 11 (d + days_in_month (y - 1) 11) \<and> valid_date c"
        using "1.IH"(1) [OF True refl refl] m0 by simp
      have "day_number (y - 1) 11 (d + days_in_month (y - 1) 11) = day_number y 0 d"
        using DayFromYear_next [of "y - 1"] days_before_month_12 [of "y - 1"]
        by (simp add: day_number_def days_before_month_0)
      with ih True m0 show ?thesis
        by (subst normalize_day.simps) (simp add: Let_def)
    next
      case m1: False
      then have mr: "0 \<le> m - 1" "m - 1 \<le> 11" using "1.prems" by simp_all
      have ih: "let c = normalize_day y (m - 1) (d + days_in_month y (m - 1))
        in day_number (fullYear c) (month c) (date c) =
           day_number y (m - 1) (d + days_in_month y (m - 1)) \<and> valid_date c"
        using "1.IH"(1) [OF True refl refl] m1 mr by simp
      have "day_number y (m - 1) (d + days_in_month y (m - 1)) = day_number y m d"
        using days_before_month_Suc [of "m - 1" y] mr by (simp add: day_number_def)
      with ih True m1 show ?thesis
        by (subst normalize_day.simps) (simp add: Let_def)
    qed
  next
    case False
    show ?thesis
    proof (cases "days_in_month y m < d")
      case over: True
      show ?thesis
      proof (cases "m = 11")
        case m11: True
        have ih: "let c = normalize_day (y + 1) 0 (d - days_in_month y 11)
          in day_number (fullYear c) (month c) (date c) =
             day_number (y + 1) 0 (d - days_in_month y 11) \<and> valid_date c"
          using "1.IH"(2) [OF False over refl refl] m11 by simp
        have "day_number (y + 1) 0 (d - days_in_month y 11) = day_number y 11 d"
          using DayFromYear_next [of y] days_before_month_12 [of y]
          by (simp add: day_number_def days_before_month_0)
        with ih False over m11 show ?thesis
          by (subst normalize_day.simps) (simp add: Let_def)
      next
        case m10: False
        then have mr: "0 \<le> m + 1" "m + 1 \<le> 11" using "1.prems" by simp_all
        have ih: "let c = normalize_day y (m + 1) (d - days_in_month y m)
          in day_number (fullYear c) (month c) (date c) =
             day_number y (m + 1) (d - days_in_month y m) \<and> valid_date c"
          using "1.IH"(2) [OF False over refl refl] m10 mr by simp
        have "day_number y (m + 1) (d - days_in_month y m) = day_number y m d"
          using days_before_month_Suc [of m y] "1.prems" by (simp add: day_number_def)
        with ih False over m10 show ?thesis
          by (subst normalize_day.simps) (simp add: Let_def)
      qed
    next
      case inside: False
      with False "1.prems" show ?thesis
        by (subst normalize_day.simps) (simp add: Let_def valid_date_def)
    qed
  qed
qed

lemma newDate_reads_local_day:
  assumes "newDate z (Some y) (Some m) (Some d) = Some c"
  shows "valid_date c \<and>
     (\<exists>tv. midnight z (requested_day y m d) = Some tv \<and>
           day_number (fullYear c) (month c) (date c) = local_day z tv)"
proof -
  define yr where "yr = (if 0 \<le> y \<and> y \<le> 99 then 1900 + y else y)"
  define D where "D = requested_day y m d"
  obtain tv where tv: "midnight z D = Some tv"
    and c: "c = normalize_day (yr + m div 12) (m mod 12) (d + (local_day z tv - D))"
    using assms by (auto simp: newDate_def Let_def yr_def D_def split: option.splits)
  have "0 \<le> m mod 12" "m mod 12 \<le> 11" by simp_all
  from day_number_normalize_day [OF this, of "yr + m div 12" "d + (local_day z tv - D)"]
  have n: "day_number (fullYear c) (month c) (date c) =
      day_number (yr + m div 12) (m mod 12) (d + (local_day z tv - D))" and v: "valid_date c"
    by (simp_all add: Let_def c)
  have "day_number (yr + m div 12) (m mod 12) (d + (local_day z tv - D)) =
      D + (local_day z tv - D)"
    by (simp add: day_number_def D_def requested_day_def yr_def Let_def)
  with n have "day_number (fullYear c) (month c) (date c) = local_day z tv" by simp
  then show ?thesis using tv v by (simp add: D_def)
qed

lemma pad_total: "(a + (7 - a mod 7) mod 7) mod 7 = (0::nat)"
proof -
  have "(a + (7 - a mod 7) mod 7) mod 7 = (a mod 7 + (7 - a mod 7) mod 7) mod 7"
    by (simp add: mod_add_left_eq)
  also have "\<dots> = 0"
  proof (cases "a mod 7 = 0")
    case True
    then show ?thesis by simp
  next
    case False
    have "a mod 7 < 7" by simp
    with False have "(7 - a mod 7) mod 7 = 7 - a mod 7" by simp
    with \<open>a mod 7 < 7\<close> show ?thesis by simp
  qed
  finally show ?thesis .
qed

lemma weekday_range: "0 \<le> weekday y m d \<and> weekday y m d < 7"
  by (simp add: weekday_def)

text \<open>In a zone with one offset a date is settled exactly when its local midnight is a time value.\<close>

lemma settled_fixed_zone:
  "settled (fixed_zone off) y m d \<longleftrightarrow>
     \<bar>requested_day y m d * msPerDay - off\<bar> \<le> 8640000000000000"
  by (simp add: settled_def midnight_def local_day_def fixed_zone_def Let_def msPerDay_def)

lemma push_empty_count: "push_empty 0 n [] = replicate (loop_count n) None"
  by (cases n) (simp_all add: push_empty_NaN push_empty_eq loop_count_def)

lemma push_days_count:
  "push_days z tod y m 1 n cs =
     cs @ map (\<lambda>d. Some (day_cell z tod y m d)) [1..int (loop_count n)]"
proof (cases n)
  case None
  then show ?thesis by (simp add: push_days_NaN loop_count_def)
next
  case (Some k)
  have "[1..int (nat k)] = [1..k]" by (cases "0 \<le> k") simp_all
  with Some show ?thesis by (simp add: push_days_eq loop_count_def)
qed

text \<open>
  The three loops: as many empty slots as the first bound counts, one cell per day up to
  the second bound, and the fewest empty slots that make the length a multiple of 7.
\<close>

lemma calendar_shape:
  "cells (calendar z tod) =
     replicate (loop_count (startWeekday z tod)) None @
     map (\<lambda>d. Some (day_cell z tod (getFullYear tod) (getMonth tod) d))
       [1..int (loop_count (daysInMonth z tod))] @
     replicate
       ((7 - (loop_count (startWeekday z tod) + loop_count (daysInMonth z tod)) mod 7) mod 7)
       None"
proof -
  have c0: "cells (calendar z tod) =
      pad_week (push_days z tod (getFullYear tod) (getMonth tod) 1 (daysInMonth z tod)
        (push_empty 0 (startWeekday z tod) []))"
    by (simp add: calendar_def Let_def startWeekday_def daysInMonth_def)
  show ?thesis
    by (simp add: c0 push_empty_count push_days_count pad_week_eq)
qed

lemma calendar_length: "length (cells (calendar z tod)) mod 7 = 0"
proof -
  have "length (cells (calendar z tod)) =
      loop_count (startWeekday z tod) + loop_count (daysInMonth z tod) +
      (7 - (loop_count (startWeekday z tod) + loop_count (daysInMonth z tod)) mod 7) mod 7"
    by (simp add: calendar_shape)
  then show ?thesis by (simp only: pad_total)
qed

text \<open>
  Claim C1, as amended. For every reference date, valid or not, the grid has a length
  that is a multiple of 7 and is exactly: as many empty slots as the weekday index that
  the \<^verbatim>\<open>Date\<close> of day 1 of the month reports, then one cell per day from 1 to the day
  that the \<^verbatim>\<open>Date\<close> of day 0 of the next month reports, in order, labelled with the
  day and marked when it is the reference day, then the fewest empty slots that make
  the length a multiple of 7; a number that is \<^verbatim>\<open>NaN\<close> gives no slot and no cell.
  For a valid reference date outside the years 0 to 99, the first number is the weekday
  index (0 is Sunday) of day 1 of the month where that date is settled, the second is
  the number of days of the month where that date is settled, and a day cell whose own
  date is settled has that date's ISO form as its key. So where both dates are settled,
  the grid holds exactly as many day cells as the reference date's month has days, and
  is exactly: one empty slot per weekday index of day 1 of the month, then one cell per
  day from 1 to the last day of the month in order, then the fewest empty slots that
  make the length a multiple of 7. The reference date the program passes, \<open>today\<close>, is
  a valid date outside the years 0 to 99 for every valid clock reading whose day is
  settled.
\<close>

theorem calendar_grid:
  "(let lead = loop_count (startWeekday z tod); n = loop_count (daysInMonth z tod);
        pad = (7 - (lead + n) mod 7) mod 7;
        grid = cells (calendar z tod)
    in length grid mod 7 = 0 \<and>
       length (filter (\<lambda>c. c \<noteq> None) grid) = n \<and>
       grid =
         replicate lead None @
         map (\<lambda>d. Some (day_cell z tod (getFullYear tod) (getMonth tod) d)) [1..int n] @
         replicate pad None \<and>
       map (map_option (\<lambda>c. (label c, isToday c))) grid =
         replicate lead None @
         map (\<lambda>d. Some (d, Some d = getDate tod)) [1..int n] @
         replicate pad None) \<and>
   (valid_date t \<and> (fullYear t < 0 \<or> 99 < fullYear t) \<longrightarrow>
      (settled z (fullYear t) (month t) 1 \<longrightarrow>
         startWeekday z (Some t) = Some (weekday (fullYear t) (month t) 1)) \<and>
      (settled z (fullYear t) (month t + 1) 0 \<longrightarrow>
         daysInMonth z (Some t) = Some (days_in_month (fullYear t) (month t))) \<and>
      (1 \<le> d \<and> d \<le> days_in_month (fullYear t) (month t) \<and>
       settled z (fullYear t) (month t) d \<longrightarrow>
         key (day_cell z (Some t) (Some (fullYear t)) (Some (month t)) d) =
           formatISODate (Some \<lparr>fullYear = fullYear t, month = month t, date = d\<rparr>)) \<and>
      (settled z (fullYear t) (month t) 1 \<and> settled z (fullYear t) (month t + 1) 0 \<longrightarrow>
         (let y = fullYear t; m = month t;
              lead = nat (weekday y m 1); dim = days_in_month y m;
              pad = (7 - (lead + nat dim) mod 7) mod 7;
              grid = cells (calendar z (Some t))
          in length grid mod 7 = 0 \<and>
             length (filter (\<lambda>c. c \<noteq> None) grid) = nat dim \<and>
             grid =
               replicate lead None @
               map (\<lambda>d. Some (day_cell z (Some t) (Some y) (Some m) d)) [1..dim] @
               replicate pad None))) \<and>
   (valid_date now \<and> settled z (fullYear now) (month now) (date now) \<longrightarrow>
      (\<exists>t'. today z now = Some t' \<and> valid_date t' \<and> (fullYear t' < 0 \<or> 99 < fullYear t')))"
proof -
  have labels: "map (map_option (\<lambda>c. (label c, isToday c))) (cells (calendar z tod)) =
      replicate (loop_count (startWeekday z tod)) None @
      map (\<lambda>d. Some (d, Some d = getDate tod)) [1..int (loop_count (daysInMonth z tod))] @
      replicate
        ((7 - (loop_count (startWeekday z tod) + loop_count (daysInMonth z tod)) mod 7) mod 7)
        None"
    by (simp add: calendar_shape day_cell_def Let_def comp_def)
  have count: "length (filter (\<lambda>c. c \<noteq> None) (cells (calendar z tod))) =
      loop_count (daysInMonth z tod)" for tod
    by (simp add: calendar_shape)
  have shape: "(let lead = loop_count (startWeekday z tod); n = loop_count (daysInMonth z tod);
        pad = (7 - (lead + n) mod 7) mod 7;
        grid = cells (calendar z tod)
    in length grid mod 7 = 0 \<and>
       length (filter (\<lambda>c. c \<noteq> None) grid) = n \<and>
       grid =
         replicate lead None @
         map (\<lambda>d. Some (day_cell z tod (getFullYear tod) (getMonth tod) d)) [1..int n] @
         replicate pad None \<and>
       map (map_option (\<lambda>c. (label c, isToday c))) grid =
         replicate lead None @
         map (\<lambda>d. Some (d, Some d = getDate tod)) [1..int n] @
         replicate pad None)"
    using calendar_length [of z tod] count [of tod] calendar_shape [of z tod] labels
    by (simp only: Let_def simp_thms)
  have dates: "(settled z (fullYear t) (month t) 1 \<longrightarrow>
         startWeekday z (Some t) = Some (weekday (fullYear t) (month t) 1)) \<and>
      (settled z (fullYear t) (month t + 1) 0 \<longrightarrow>
         daysInMonth z (Some t) = Some (days_in_month (fullYear t) (month t))) \<and>
      (1 \<le> d \<and> d \<le> days_in_month (fullYear t) (month t) \<and>
       settled z (fullYear t) (month t) d \<longrightarrow>
         key (day_cell z (Some t) (Some (fullYear t)) (Some (month t)) d) =
           formatISODate (Some \<lparr>fullYear = fullYear t, month = month t, date = d\<rparr>)) \<and>
      (settled z (fullYear t) (month t) 1 \<and> settled z (fullYear t) (month t + 1) 0 \<longrightarrow>
         (let y = fullYear t; m = month t;
              lead = nat (weekday y m 1); dim = days_in_month y m;
              pad = (7 - (lead + nat dim) mod 7) mod 7;
              grid = cells (calendar z (Some t))
          in length grid mod 7 = 0 \<and>
             length (filter (\<lambda>c. c \<noteq> None) grid) = nat dim \<and>
             grid =
               replicate lead None @
               map (\<lambda>d. Some (day_cell z (Some t) (Some y) (Some m) d)) [1..dim] @
               replicate pad None))"
    if v: "valid_date t" and ty: "fullYear t < 0 \<or> 99 < fullYear t"
  proof -
    have tm: "0 \<le> month t" "month t \<le> 11" using v by (simp_all add: valid_date_def)
    have dim: "1 \<le> days_in_month (fullYear t) (month t)"
      using days_in_month_bounds [of "fullYear t" "month t"] by simp
    have first: "startWeekday z (Some t) = Some (weekday (fullYear t) (month t) 1)"
      if s: "settled z (fullYear t) (month t) 1"
      using newDate_in_month [OF s ty tm _ dim]
      by (simp add: startWeekday_def getDay_def getFullYear_def getMonth_def)
    have last: "daysInMonth z (Some t) = Some (days_in_month (fullYear t) (month t))"
      if s: "settled z (fullYear t) (month t + 1) 0"
      using newDate_day_zero_next [OF s ty tm]
      by (simp add: daysInMonth_def getDate_def getFullYear_def getMonth_def)
    have keys: "key (day_cell z (Some t) (Some (fullYear t)) (Some (month t)) d) =
        formatISODate (Some \<lparr>fullYear = fullYear t, month = month t, date = d\<rparr>)"
      if "1 \<le> d" "d \<le> days_in_month (fullYear t) (month t)" "settled z (fullYear t) (month t) d"
      using newDate_in_month [OF that(3) ty tm that(1,2)]
      by (simp add: day_cell_def Let_def)
    have both: "(let y = fullYear t; m = month t;
              lead = nat (weekday y m 1); dim = days_in_month y m;
              pad = (7 - (lead + nat dim) mod 7) mod 7;
              grid = cells (calendar z (Some t))
          in length grid mod 7 = 0 \<and>
             length (filter (\<lambda>c. c \<noteq> None) grid) = nat dim \<and>
             grid =
               replicate lead None @
               map (\<lambda>d. Some (day_cell z (Some t) (Some y) (Some m) d)) [1..dim] @
               replicate pad None)"
      if s1: "settled z (fullYear t) (month t) 1" and s0: "settled z (fullYear t) (month t + 1) 0"
    proof -
      have l: "loop_count (startWeekday z (Some t)) = nat (weekday (fullYear t) (month t) 1)"
        by (simp add: first [OF s1] loop_count_def)
      have n: "loop_count (daysInMonth z (Some t)) = nat (days_in_month (fullYear t) (month t))"
        by (simp add: last [OF s0] loop_count_def)
      have i: "int (nat (days_in_month (fullYear t) (month t))) = days_in_month (fullYear t) (month t)"
        using dim by simp
      show ?thesis
        using calendar_length [of z "Some t"] count [of "Some t"] calendar_shape [of z "Some t"]
        by (simp only: Let_def l n i getFullYear_def getMonth_def option.map simp_thms)
    qed
    from first last keys both show ?thesis by blast
  qed
  have tod: "\<exists>t'. today z now = Some t' \<and> valid_date t' \<and> (fullYear t' < 0 \<or> 99 < fullYear t')"
    if "valid_date now" "settled z (fullYear now) (month now) (date now)"
    by (rule today_cases [OF that])
  from shape dates tod show ?thesis by blast
qed

theorem calendar_grid_witness:
  "valid_date \<lparr>fullYear = 2024, month = 1, date = 29\<rparr> \<and>
   settled seoul 2024 1 29 \<and>
   today seoul \<lparr>fullYear = 2024, month = 1, date = 29\<rparr> =
     Some \<lparr>fullYear = 2024, month = 1, date = 29\<rparr> \<and>
   settled seoul 2024 1 1 \<and> settled seoul 2024 2 0 \<and> settled seoul 2024 1 15 \<and>
   weekday 2024 1 1 = 4 \<and> days_in_month 2024 1 = 29 \<and>
   startWeekday seoul (Some \<lparr>fullYear = 2024, month = 1, date = 29\<rparr>) = Some 4 \<and>
   daysInMonth seoul (Some \<lparr>fullYear = 2024, month = 1, date = 29\<rparr>) = Some 29 \<and>
   length (cells (calendar seoul (today seoul \<lparr>fullYear = 2024, month = 1, date = 29\<rparr>))) = 35 \<and>
   length (filter (\<lambda>c. c \<noteq> None)
     (cells (calendar seoul (today seoul \<lparr>fullYear = 2024, month = 1, date = 29\<rparr>)))) = 29 \<and>
   map (map_option (\<lambda>c. (label c, isToday c)))
     (cells (calendar seoul (today seoul \<lparr>fullYear = 2024, month = 1, date = 29\<rparr>))) =
     replicate 4 None @ map (\<lambda>d. Some (d, d = 29)) [1..29] @ replicate 2 None \<and>
   key (day_cell seoul (Some \<lparr>fullYear = 2024, month = 1, date = 29\<rparr>) (Some 2024) (Some 1) 15) =
     ascii ''2024-02-15''"
proof -
  let ?now = "\<lparr>fullYear = 2024, month = 1, date = 29\<rparr>"
  have v: "valid_date ?now"
    by (simp add: valid_date_def days_in_month_def leap_year_def)
  have r: "requested_day 2024 1 29 = 19782" "requested_day 2024 1 1 = 19754"
    "requested_day 2024 2 0 = 19782" "requested_day 2024 1 15 = 19768"
    by (simp_all add: requested_day_def day_number_def DayFromYear_def days_before_month_def
        days_in_month_def leap_year_def upto_rec1)
  have s: "settled seoul 2024 1 29" "settled seoul 2024 1 1" "settled seoul 2024 2 0"
    "settled seoul 2024 1 15"
    by (simp_all add: settled_def r midnight_def local_day_def seoul_def fixed_zone_def
        msPerDay_def)
  have d: "days_in_month 2024 1 = 29" by (simp add: days_in_month_def leap_year_def)
  have w: "weekday 2024 1 1 = 4"
    by (simp add: weekday_def day_number_def DayFromYear_def days_before_month_def
        days_in_month_def leap_year_def upto_rec1)
  have k: "formatISODate (Some \<lparr>fullYear = 2024, month = 1, date = 15\<rparr>) = ascii ''2024-02-15''"
    by (simp add: formatISODate_def getFullYear_def getMonth_def getDate_def num_str_def
        int_str_def padStart_def ascii_def nat_str.simps digit_def)
  note c = calendar_grid [of seoul "Some ?now" ?now 15 ?now]
  have dates: "startWeekday seoul (Some ?now) = Some 4" "daysInMonth seoul (Some ?now) = Some 29"
    "key (day_cell seoul (Some ?now) (Some 2024) (Some 1) 15) = ascii ''2024-02-15''"
    using c [THEN conjunct2, THEN conjunct1] v s by (simp_all add: w d k)
  have t: "today seoul ?now = Some ?now"
    using newDate_in_month [OF s(1)] by (simp add: today_def d)
  have shape: "length (cells (calendar seoul (Some ?now))) mod 7 = 0"
    "length (filter (\<lambda>c. c \<noteq> None) (cells (calendar seoul (Some ?now)))) = 29"
    "cells (calendar seoul (Some ?now)) =
       replicate 4 None @
       map (\<lambda>d. Some (day_cell seoul (Some ?now) (Some 2024) (Some 1) d)) [1..29] @
       replicate 2 None"
    "map (map_option (\<lambda>c. (label c, isToday c))) (cells (calendar seoul (Some ?now))) =
       replicate 4 None @ map (\<lambda>d. Some (d, d = 29)) [1..29] @ replicate 2 None"
    using c [THEN conjunct1]
    by (simp_all add: Let_def dates loop_count_def getFullYear_def getMonth_def getDate_def
        day_cell_def)
  have len: "length (cells (calendar seoul (Some ?now))) = 35"
    by (simp add: shape(3))
  show ?thesis
    using v s t w d dates shape(2,4) len by (simp only: simp_thms)
qed

text \<open>
  Claim C1 as stated, for every valid reference date, fails where a date that decides
  the shape of the grid is not settled. In September 275760 the last day of the month
  lies beyond the largest time value: \<^verbatim>\<open>new Date(275760, 9, 0)\<close> is the Invalid Date,
  the day count is \<^verbatim>\<open>NaN\<close>, and the grid holds no day cell, only seven empty slots,
  while the month has 30 days. In April -271821 day 1 of the month lies before the
  smallest time value: the weekday of the Invalid Date is \<^verbatim>\<open>NaN\<close>, and the grid starts
  with the cell of day 1, while day 1 has weekday index 4. Where the zone skips a local
  day, as Kiritimati skipped 31 December 1994, day 0 of the next month reads back as
  day 1, and the grid of December 1994 holds one day cell, while the month has 31 days.
\<close>

theorem calendar_grid_fails:
  "valid_date \<lparr>fullYear = 275760, month = 8, date = 1\<rparr> \<and>
   today seoul \<lparr>fullYear = 275760, month = 8, date = 1\<rparr> =
     Some \<lparr>fullYear = 275760, month = 8, date = 1\<rparr> \<and>
   newDate seoul (Some 275760) (Some 9) (Some 0) = None \<and>
   cells (calendar seoul (today seoul \<lparr>fullYear = 275760, month = 8, date = 1\<rparr>)) =
     [None, None, None, None, None, None, None] \<and>
   days_in_month 275760 8 = 30 \<and>
   valid_date \<lparr>fullYear = - 271821, month = 3, date = 25\<rparr> \<and>
   today seoul \<lparr>fullYear = - 271821, month = 3, date = 25\<rparr> =
     Some \<lparr>fullYear = - 271821, month = 3, date = 25\<rparr> \<and>
   newDate seoul (Some (- 271821)) (Some 3) (Some 1) = None \<and>
   take 1 (cells (calendar seoul (today seoul \<lparr>fullYear = - 271821, month = 3, date = 25\<rparr>))) =
     [Some \<lparr>key = ascii ''NaN-NaN-NaN'', label = 1, isToday = False\<rparr>] \<and>
   weekday (- 271821) 3 1 = 4 \<and>
   valid_date \<lparr>fullYear = 1994, month = 11, date = 5\<rparr> \<and>
   today kiritimati \<lparr>fullYear = 1994, month = 11, date = 5\<rparr> =
     Some \<lparr>fullYear = 1994, month = 11, date = 5\<rparr> \<and>
   newDate kiritimati (Some 1994) (Some 12) (Some 0) =
     Some \<lparr>fullYear = 1995, month = 0, date = 1\<rparr> \<and>
   cells (calendar kiritimati (today kiritimati \<lparr>fullYear = 1994, month = 11, date = 5\<rparr>)) =
     [None, None, None, None,
      Some \<lparr>key = ascii ''1994-12-01'', label = 1, isToday = False\<rparr>,
      None, None] \<and>
   days_in_month 1994 11 = 31"
proof -
  have r1: "requested_day 275760 8 1 = 99999988" "requested_day 275760 9 0 = 100000017"
    by (simp_all add: requested_day_def day_number_def DayFromYear_def days_before_month_def
        days_in_month_def leap_year_def upto_rec1)
  have n1: "normalize_day 275760 8 1 = \<lparr>fullYear = 275760, month = 8, date = 1\<rparr>"
    by (simp add: normalize_day_in_month days_in_month_def)
  have a1: "newDate seoul (Some 275760) (Some 8) (Some 1) =
      Some \<lparr>fullYear = 275760, month = 8, date = 1\<rparr>"
    by (simp add: newDate_def r1 midnight_def local_day_def seoul_def fixed_zone_def
        msPerDay_def n1)
  have a2: "newDate seoul (Some 275760) (Some 9) (Some 0) = None"
    by (simp add: newDate_def r1 midnight_def seoul_def fixed_zone_def msPerDay_def)
  have w1: "weekday 275760 8 1 = 1"
    by (simp add: weekday_def day_number_def DayFromYear_def days_before_month_def
        days_in_month_def leap_year_def upto_rec1)
  have p1: "pad_week [None] = [None, None, None, None, None, None, None]"
    by (simp add: pad_week_eq; simp add: numeral_eq_Suc)
  have e1: "push_empty 0 (Some 1) [] = [None]"
    by (simp add: push_empty_eq; simp add: numeral_eq_Suc)
  have g1: "cells (calendar seoul (Some \<lparr>fullYear = 275760, month = 8, date = 1\<rparr>)) =
      [None, None, None, None, None, None, None]"
    by (simp add: calendar_def getFullYear_def getMonth_def getDay_def getDate_def a1 a2 w1
        e1 push_days_NaN p1)
  have r3: "requested_day (- 271821) 3 25 = - 99999995"
    "requested_day (- 271821) 3 1 = - 100000019" "requested_day (- 271821) 4 0 = - 99999990"
    by (simp_all add: requested_day_def day_number_def DayFromYear_def days_before_month_def
        days_in_month_def leap_year_def upto_rec1)
  have n4: "normalize_day (- 271821) 3 25 = \<lparr>fullYear = - 271821, month = 3, date = 25\<rparr>"
    by (simp add: normalize_day_in_month days_in_month_def)
  have n5: "normalize_day (- 271821) 4 0 = \<lparr>fullYear = - 271821, month = 3, date = 30\<rparr>"
    by (simp add: normalize_day_zero days_in_month_def)
  have f1: "newDate seoul (Some (- 271821)) (Some 3) (Some 25) =
      Some \<lparr>fullYear = - 271821, month = 3, date = 25\<rparr>"
    by (simp add: newDate_def r3 midnight_def local_day_def seoul_def fixed_zone_def
        msPerDay_def n4)
  have f2: "newDate seoul (Some (- 271821)) (Some 3) (Some 1) = None"
    by (simp add: newDate_def r3 midnight_def seoul_def fixed_zone_def msPerDay_def)
  have f3: "newDate seoul (Some (- 271821)) (Some 4) (Some 0) =
      Some \<lparr>fullYear = - 271821, month = 3, date = 30\<rparr>"
    by (simp add: newDate_def r3 midnight_def local_day_def seoul_def fixed_zone_def
        msPerDay_def n5)
  have w3: "weekday (- 271821) 3 1 = 4"
    by (simp add: weekday_def day_number_def DayFromYear_def days_before_month_def
        days_in_month_def leap_year_def upto_rec1)
  have k3: "formatISODate None = ascii ''NaN-NaN-NaN''"
    by (simp add: formatISODate_def getFullYear_def getMonth_def getDate_def num_str_def
        padStart_def ascii_def)
  have c3: "day_cell seoul (Some \<lparr>fullYear = - 271821, month = 3, date = 25\<rparr>)
      (Some (- 271821)) (Some 3) 1 = \<lparr>key = ascii ''NaN-NaN-NaN'', label = 1, isToday = False\<rparr>"
    by (simp add: day_cell_def f2 k3 getDate_def)
  have d3: "push_days seoul tod (Some (- 271821)) (Some 3) 1 (Some 30) [] =
      Some (day_cell seoul tod (Some (- 271821)) (Some 3) 1) #
      map (\<lambda>d. Some (day_cell seoul tod (Some (- 271821)) (Some 3) d)) [2..30]" for tod
    by (simp add: push_days_eq upto_rec1 [of 1 30])
  have g3: "take 1 (cells (calendar seoul (Some \<lparr>fullYear = - 271821, month = 3, date = 25\<rparr>))) =
      [Some \<lparr>key = ascii ''NaN-NaN-NaN'', label = 1, isToday = False\<rparr>]"
    by (simp add: calendar_def Let_def getFullYear_def getMonth_def getDay_def f2 f3
        push_empty_NaN d3 c3 pad_week_eq getDate_def [of "Some x" for x])
  have r2: "requested_day 1994 11 5 = 9104" "requested_day 1994 11 1 = 9100"
    "requested_day 1994 12 0 = 9130"
    by (simp_all add: requested_day_def day_number_def DayFromYear_def days_before_month_def
        days_in_month_def leap_year_def upto_rec1)
  have n2: "normalize_day 1994 11 5 = \<lparr>fullYear = 1994, month = 11, date = 5\<rparr>"
    "normalize_day 1994 11 1 = \<lparr>fullYear = 1994, month = 11, date = 1\<rparr>"
    by (simp_all add: normalize_day_in_month days_in_month_def)
  have n3: "normalize_day 1995 0 1 = \<lparr>fullYear = 1995, month = 0, date = 1\<rparr>"
    by (simp add: normalize_day_in_month days_in_month_def)
  have b1: "newDate kiritimati (Some 1994) (Some 11) (Some 5) =
      Some \<lparr>fullYear = 1994, month = 11, date = 5\<rparr>"
    by (simp add: newDate_def r2 midnight_def local_day_def kiritimati_def msPerDay_def n2)
  have b2: "newDate kiritimati (Some 1994) (Some 11) (Some 1) =
      Some \<lparr>fullYear = 1994, month = 11, date = 1\<rparr>"
    by (simp add: newDate_def r2 midnight_def local_day_def kiritimati_def msPerDay_def n2)
  have b3: "newDate kiritimati (Some 1994) (Some 12) (Some 0) =
      Some \<lparr>fullYear = 1995, month = 0, date = 1\<rparr>"
    by (simp add: newDate_def r2 midnight_def local_day_def kiritimati_def msPerDay_def n3)
  have w2: "weekday 1994 11 1 = 4"
    by (simp add: weekday_def day_number_def DayFromYear_def days_before_month_def
        days_in_month_def leap_year_def upto_rec1)
  have k2: "formatISODate (Some \<lparr>fullYear = 1994, month = 11, date = 1\<rparr>) = ascii ''1994-12-01''"
    by (simp add: formatISODate_def getFullYear_def getMonth_def getDate_def num_str_def
        int_str_def padStart_def ascii_def nat_str.simps digit_def)
  have e2: "push_empty 0 (Some 4) [] = [None, None, None, None]"
    by (simp add: push_empty_eq; simp add: numeral_eq_Suc)
  have c2: "day_cell kiritimati (Some \<lparr>fullYear = 1994, month = 11, date = 5\<rparr>)
      (Some 1994) (Some 11) 1 = \<lparr>key = ascii ''1994-12-01'', label = 1, isToday = False\<rparr>"
    by (simp add: day_cell_def b2 k2 getDate_def)
  have d2: "push_days kiritimati tod (Some 1994) (Some 11) 1 (Some 1) cs =
      cs @ [Some (day_cell kiritimati tod (Some 1994) (Some 11) 1)]" for tod cs
    by (simp add: push_days_eq)
  have p2: "pad_week [None, None, None, None, Some c] =
      [None, None, None, None, Some c, None, None]" for c :: cell
    by (simp add: pad_week_eq; simp add: numeral_eq_Suc)
  have g2: "cells (calendar kiritimati (Some \<lparr>fullYear = 1994, month = 11, date = 5\<rparr>)) =
      [None, None, None, None,
       Some \<lparr>key = ascii ''1994-12-01'', label = 1, isToday = False\<rparr>, None, None]"
    by (simp add: calendar_def getFullYear_def getMonth_def getDay_def getDate_def b2 b3 w2
        e2 d2 c2 p2)
  have v: "valid_date \<lparr>fullYear = 275760, month = 8, date = 1\<rparr>"
    "valid_date \<lparr>fullYear = 1994, month = 11, date = 5\<rparr>"
    "valid_date \<lparr>fullYear = - 271821, month = 3, date = 25\<rparr>"
    "days_in_month 275760 8 = 30" "days_in_month 1994 11 = 31"
    by (simp_all add: valid_date_def days_in_month_def)
  show ?thesis
    by (simp only: today_def civil.simps a1 a2 g1 f1 f2 g3 w3 b1 b3 g2 v simp_thms)
qed

section \<open>Reading the answer: correctness\<close>

lemma and_then_simps [simp]:
  "and_then (Inl e) f = Inl e"
  "and_then (Inr v) f = f v"
  by (simp_all add: and_then_def)

lemma and_then_Inr_iff:
  "and_then r f = Inr y \<longleftrightarrow> (\<exists>v. r = Inr v \<and> f v = Inr y)"
  by (cases r) simp_all

lemma coalesce_simps [simp]:
  "coalesce (Inl e) b = Inl e"
  "coalesce (Inr v) b = (if nullish v then b else Inr v)"
  by (simp_all add: coalesce_def)

lemma interpret_response_Inr:
  assumes "interpret_response pos data = Inr r"
  shows "coalesce (coalesce (get data (ascii ''answer'')) (get data (ascii ''result'')))
           (Inr (JStr fallback_text)) = Inr (answerText r)"
    and "coalesce (coalesce (get data (ascii ''contexts'')) (get data (ascii ''sources'')))
           (Inr (JArr [])) = Inr (sources r)"
    and "coalesce (get data (ascii ''intent'')) (Inr (JStr (ascii ''rag''))) = Inr (intent r)"
    and "isReminder r \<longleftrightarrow> intent r = JStr (ascii ''reminder'')"
    and "decorate pos (answerText r) (sources r) (isReminder r) = Inr (decoratedAnswer r)"
  using assms unfolding interpret_response_def Let_def
  by (auto simp: and_then_Inr_iff)

lemma unat_of_char16: "unat (of_char c :: 16 word) = of_char c"
proof -
  have "(of_char c :: 16 word) = of_nat (of_char c)" by (simp add: of_nat_of_char)
  moreover have "(of_char c :: nat) < 2 ^ 16"
    by (rule less_trans [OF nat_of_char_less_256]) simp
  ultimately show ?thesis by (simp add: unat_of_nat take_bit_nat_eq_self)
qed

lemma of_char_inj16: "(of_char c :: 16 word) = of_char d \<longleftrightarrow> c = d"
proof
  assume "(of_char c :: 16 word) = of_char d"
  then have "unat (of_char c :: 16 word) = unat (of_char d :: 16 word)" by simp
  then show "c = d"
    by (simp add: unat_of_char16) 
qed simp

lemma ascii_eq_iff [simp]: "ascii s = ascii t \<longleftrightarrow> s = t"
  unfolding ascii_def
  by (rule inj_map_eq_map) (simp add: inj_on_def of_char_inj16)

lemma nat_str_zero: "nat_str 0 = ascii ''0''"
  by (simp add: nat_str.simps ascii_def digit_def)

lemma zero_not_length: "nat_str 0 \<noteq> ascii ''length''"
  by (simp add: nat_str_zero)

lemma array_index_zero: "array_index (Suc n) (nat_str 0) = Some 0"
  by (simp add: array_index_def upt_rec)

lemma get_array_length [simp]: "get (JArr xs) (ascii ''length'') = Inr (JNum (int (length xs)))"
  by simp

lemma get_array_first [simp]: "get (JArr (x # xs)) (nat_str 0) = Inr x"
  by (simp add: zero_not_length array_index_zero)

lemma decorate_reminder [simp]: "decorate pos answer srcs True = Inr answer"
  by (simp add: decorate_def)

lemma decorate_empty [simp]: "decorate pos answer (JArr []) reminder = Inr answer"
  by (simp add: decorate_def greater_zero_def)

lemma decorate_first:
  "decorate pos answer (JArr (f # fs)) False =
     and_then (coalesce (get f (ascii ''page'')) (get f (ascii ''page_number''))) (\<lambda>pageInfo.
       if truthy pageInfo
       then and_then (ToString pageInfo) (\<lambda>p.
              and_then (ToString answer) (\<lambda>a.
                Inr (JStr (a @ citation_open @ p @ citation_close))))
       else Inr answer)"
  by (simp add: decorate_def greater_zero_def del: get.simps)

lemma suffix_differs:
  assumes "ToString answer = Inr a"
  shows "JStr (a @ citation_open @ p @ citation_close) \<noteq> answer"
proof
  assume eq: "JStr (a @ citation_open @ p @ citation_close) = answer"
  then have "ToString answer = Inr (a @ citation_open @ p @ citation_close)" by auto
  with assms have "a = a @ citation_open @ p @ citation_close" by simp
  then show False by (simp add: citation_open_def)
qed

text \<open>
  Claim C2, as amended. For every response that is read without an exception and whose
  sources are a sequence: \<open>isReminder\<close> holds exactly when the intent is the string
  \<^verbatim>\<open>reminder\<close>; for a reminder the text shown is exactly the answer text; the text shown
  differs from the answer text exactly when the response is no reminder and the page value
  of the first fragment is truthy; and then it is the answer text followed by the citation
  of that page.
\<close>

theorem display_text_citation:
  assumes "interpret_response pos data = Inr r" and "sources r = JArr fs"
  shows "(isReminder r \<longleftrightarrow> intent r = JStr (ascii ''reminder'')) \<and>
         (isReminder r \<longrightarrow> decoratedAnswer r = answerText r) \<and>
         (decoratedAnswer r \<noteq> answerText r \<longleftrightarrow> \<not> isReminder r \<and> truthy (first_page fs)) \<and>
         (\<not> isReminder r \<and> truthy (first_page fs) \<longrightarrow>
            (\<exists>a p. ToString (answerText r) = Inr a \<and> ToString (first_page fs) = Inr p \<and>
                   decoratedAnswer r = JStr (a @ citation_open @ p @ citation_close)))"
proof -
  note d = interpret_response_Inr(5) [OF assms(1), unfolded assms(2)]
  have rem: "isReminder r \<longleftrightarrow> intent r = JStr (ascii ''reminder'')"
    by (rule interpret_response_Inr(4) [OF assms(1)])
  show ?thesis
  proof (cases "isReminder r")
    case True
    with d rem show ?thesis by simp
  next
    case False
    show ?thesis
    proof (cases fs)
      case Nil
      with d rem False show ?thesis by simp
    next
      case (Cons f fs')
      from d Cons False obtain pageInfo where
        pg: "coalesce (get f (ascii ''page'')) (get f (ascii ''page_number'')) = Inr pageInfo"
        and rest: "(if truthy pageInfo
           then and_then (ToString pageInfo) (\<lambda>p.
                  and_then (ToString (answerText r)) (\<lambda>a.
                    Inr (JStr (a @ citation_open @ p @ citation_close))))
           else Inr (answerText r)) = Inr (decoratedAnswer r)"
        by (auto simp: decorate_first and_then_Inr_iff)
      have fp: "first_page fs = pageInfo" using Cons pg by simp
      show ?thesis
      proof (cases "truthy pageInfo")
        case True
        with rest obtain p a where "ToString pageInfo = Inr p" "ToString (answerText r) = Inr a"
          "decoratedAnswer r = JStr (a @ citation_open @ p @ citation_close)"
          by (auto simp: and_then_Inr_iff)
        with rem False True fp show ?thesis
          using suffix_differs [of "answerText r" a p] by auto
      next
        case nt: False
        with rest have "decoratedAnswer r = answerText r" by simp
        with rem False nt fp show ?thesis by simp
      qed
    qed
  qed
qed

lemma get_read: "get v k = (if nullish v then Inl TypeError else Inr (read v k))"
  by (cases v) (simp_all add: read_def nullish_def)

lemma coalesce_read:
  "\<not> nullish v \<Longrightarrow> coalesce (get v a) (get v b) = Inr (or_else (read v a) (read v b))"
  by (simp add: get_read or_else_def)

lemma or_else_not_nullish: "\<not> nullish b \<Longrightarrow> \<not> nullish (or_else a b)"
  by (simp add: or_else_def)

lemma sources_of_not_nullish: "\<not> nullish (sources_of data)"
  unfolding sources_of_def by (rule or_else_not_nullish) (simp add: nullish_def)

lemma ToString_throws:
  "ToString v = Inl e \<Longrightarrow> e = TypeError"
  "join vs = Inl e \<Longrightarrow> e = TypeError"
proof (induction v and vs arbitrary: e and e rule: ToString_join.induct)
  case (9 x xs)
  then show ?case
    by (auto simp: and_then_def split: if_splits sum.splits)
qed (auto split: if_splits)

lemma greater_zero_throws: "greater_zero pos v = Inl e \<Longrightarrow> e = TypeError"
  using ToString_throws(1) [of v e]
  by (cases v; cases "ToString v") (auto simp: greater_zero_def simp del: ToString.simps)

text \<open>Lines 117 to 123 on values that are read without an exception.\<close>

lemma decorate_read:
  assumes "\<not> nullish srcs"
  shows "decorate pos answer srcs reminder =
     (if reminder then Inr answer
      else case greater_zero pos (read srcs (ascii ''length'')) of
             Inl e \<Rightarrow> Inl e
           | Inr nonempty \<Rightarrow>
               if \<not> nonempty then Inr answer
               else if nullish (read srcs (nat_str 0)) then Inl TypeError
               else if truthy (page_of (read srcs (nat_str 0)))
               then and_then (ToString (page_of (read srcs (nat_str 0)))) (\<lambda>p.
                      and_then (ToString answer) (\<lambda>a.
                        Inr (JStr (a @ citation_open @ p @ citation_close))))
               else Inr answer)"
proof -
  have g: "get srcs k = Inr (read srcs k)" for k using assms by (simp add: get_read)
  have f: "coalesce (get first (ascii ''page'')) (get first (ascii ''page_number'')) =
      (if nullish first then Inl TypeError else Inr (page_of first))" for first
    by (simp add: get_read or_else_def page_of_def)
  show ?thesis
    by (cases "greater_zero pos (read srcs (ascii ''length''))")
      (simp_all add: decorate_def g f del: get.simps)
qed

lemma interpret_response_read:
  "interpret_response pos data =
     (if nullish data then Inl TypeError
      else and_then (decorate pos (answer_of data) (sources_of data)
                       (intent_of data = JStr (ascii ''reminder''))) (\<lambda>decorated.
             Inr \<lparr>answerText = answer_of data, sources = sources_of data,
                  intent = intent_of data,
                  isReminder = (intent_of data = JStr (ascii ''reminder'')),
                  decoratedAnswer = decorated\<rparr>))"
proof (cases "nullish data")
  case True
  then show ?thesis by (simp add: interpret_response_def get_read)
next
  case False
  have a: "coalesce (coalesce (get data (ascii ''answer'')) (get data (ascii ''result'')))
      (Inr (JStr fallback_text)) = Inr (answer_of data)"
    using False by (simp add: coalesce_read answer_of_def or_else_def [of _ "JStr fallback_text"])
  have c: "coalesce (coalesce (get data (ascii ''contexts'')) (get data (ascii ''sources'')))
      (Inr (JArr [])) = Inr (sources_of data)"
    using False by (simp add: coalesce_read sources_of_def or_else_def [of _ "JArr []"])
  have i: "coalesce (get data (ascii ''intent'')) (Inr (JStr (ascii ''rag''))) =
      Inr (intent_of data)"
    using False by (simp add: get_read intent_of_def or_else_def)
  show ?thesis using False unfolding interpret_response_def a c i by (simp add: Let_def)
qed

lemma decorate_returns:
  assumes "\<not> nullish srcs"
  shows "(\<exists>d. decorate pos answer srcs reminder = Inr d) \<longleftrightarrow>
     reminder \<or>
     (case greater_zero pos (read srcs (ascii ''length'')) of
        Inl e \<Rightarrow> False
      | Inr nonempty \<Rightarrow>
          \<not> nonempty \<or>
          \<not> nullish (read srcs (nat_str 0)) \<and>
          (truthy (page_of (read srcs (nat_str 0))) \<longrightarrow>
             has_string_form (page_of (read srcs (nat_str 0))) \<and> has_string_form answer))"
proof (cases "greater_zero pos (read srcs (ascii ''length''))")
  case (Inl e)
  then show ?thesis by (simp add: decorate_read [OF assms])
next
  case (Inr nonempty)
  show ?thesis
  proof (cases "ToString (page_of (read srcs (nat_str 0)))")
    case pl: (Inl e1)
    then show ?thesis using Inr
      by (simp add: decorate_read [OF assms] has_string_form_def)
  next
    case pr: (Inr p)
    then show ?thesis using Inr
      by (cases "ToString answer") (simp_all add: decorate_read [OF assms] has_string_form_def)
  qed
qed

lemma decorate_throws: "decorate pos answer srcs reminder = Inl e \<Longrightarrow> e = TypeError"
proof -
  assume a: "decorate pos answer srcs reminder = Inl e"
  show ?thesis
  proof (cases "nullish srcs")
    case True
    with a show ?thesis by (auto simp: decorate_def get_read split: if_splits)
  next
    case False
    show ?thesis
    proof (cases "greater_zero pos (read srcs (ascii ''length''))")
      case (Inl e')
      with a False greater_zero_throws [OF Inl] show ?thesis
        by (auto simp: decorate_read split: if_splits)
    next
      case (Inr nonempty)
      with a False show ?thesis
        using ToString_throws(1) [of "page_of (read srcs (nat_str 0))"]
          ToString_throws(1) [of answer]
        by (cases "ToString (page_of (read srcs (nat_str 0)))"; cases "ToString answer")
          (auto simp: decorate_read split: if_splits)
    qed
  qed
qed

text \<open>
  Claim C9, as amended. Reading a response is a function of the response alone, and it
  has a failure path: a \<^verbatim>\<open>TypeError\<close>, and no other exception. It returns a result
  exactly for the responses described by \<open>reads_normally\<close>: every response that is not
  \<^verbatim>\<open>null\<close> and is a reminder, or has no sources, or has a first fragment that is not
  \<^verbatim>\<open>null\<close> and whose page value is falsy or has a string form as the answer has. The
  values read are then those of \<open>answer_of\<close>, \<open>sources_of\<close> and \<open>intent_of\<close>. Whenever
  \<^verbatim>\<open>answer\<close>, \<^verbatim>\<open>result\<close>, \<^verbatim>\<open>contexts\<close>, \<^verbatim>\<open>sources\<close> and \<^verbatim>\<open>intent\<close> are all
  absent, the text shown is the fixed fallback text, the sources are the empty sequence and
  \<open>isReminder\<close> is false.
\<close>

theorem reading_fails_exactly:
  "((\<exists>r. interpret_response pos data = Inr r) \<longleftrightarrow> reads_normally pos data) \<and>
   (interpret_response pos data = Inl e \<longrightarrow> e = TypeError) \<and>
   (interpret_response pos data = Inr r \<longrightarrow>
      answerText r = answer_of data \<and> sources r = sources_of data \<and>
      intent r = intent_of data \<and> isReminder r = (intent_of data = JStr (ascii ''reminder''))) \<and>
   (get data (ascii ''answer'') = Inr JUndefined \<and> get data (ascii ''result'') = Inr JUndefined \<and>
    get data (ascii ''contexts'') = Inr JUndefined \<and> get data (ascii ''sources'') = Inr JUndefined \<and>
    get data (ascii ''intent'') = Inr JUndefined \<longrightarrow>
    interpret_response pos data =
      Inr \<lparr>answerText = JStr fallback_text, sources = JArr [], intent = JStr (ascii ''rag''),
           isReminder = False, decoratedAnswer = JStr fallback_text\<rparr>)"
proof -
  have ret: "(\<exists>r. interpret_response pos data = Inr r) \<longleftrightarrow> reads_normally pos data"
  proof (cases "nullish data")
    case True
    then show ?thesis by (simp add: interpret_response_read reads_normally_def)
  next
    case False
    have "(\<exists>r. interpret_response pos data = Inr r) \<longleftrightarrow>
        (\<exists>d. decorate pos (answer_of data) (sources_of data)
               (intent_of data = JStr (ascii ''reminder'')) = Inr d)"
      using False by (simp add: interpret_response_read and_then_Inr_iff)
    then show ?thesis using False
      by (simp only: decorate_returns [OF sources_of_not_nullish] reads_normally_def simp_thms)
  qed
  have thr: "e = TypeError" if a: "interpret_response pos data = Inl e"
  proof (cases "nullish data")
    case True
    with a show ?thesis by (simp add: interpret_response_read)
  next
    case False
    with a show ?thesis
      using decorate_throws [of pos "answer_of data" "sources_of data"
          "intent_of data = JStr (ascii ''reminder'')"]
      by (cases "decorate pos (answer_of data) (sources_of data)
            (intent_of data = JStr (ascii ''reminder''))")
        (simp_all add: interpret_response_read)
  qed
  have vals: "answerText r = answer_of data \<and> sources r = sources_of data \<and>
      intent r = intent_of data \<and> isReminder r = (intent_of data = JStr (ascii ''reminder''))"
    if "interpret_response pos data = Inr r"
    using that by (auto simp: interpret_response_read and_then_Inr_iff split: if_splits)
  have fb: "interpret_response pos data =
      Inr \<lparr>answerText = JStr fallback_text, sources = JArr [], intent = JStr (ascii ''rag''),
           isReminder = False, decoratedAnswer = JStr fallback_text\<rparr>"
    if "get data (ascii ''answer'') = Inr JUndefined \<and> get data (ascii ''result'') = Inr JUndefined \<and>
      get data (ascii ''contexts'') = Inr JUndefined \<and> get data (ascii ''sources'') = Inr JUndefined \<and>
      get data (ascii ''intent'') = Inr JUndefined"
    using that by (simp add: interpret_response_def nullish_def)
  from ret thr vals fb show ?thesis by blast
qed

theorem reading_fails_exactly_witness:
  "reads_normally no_numeric_strings (JObj []) \<and>
   get (JObj []) (ascii ''answer'') = Inr JUndefined \<and>
   interpret_response no_numeric_strings (JObj []) =
     Inr \<lparr>answerText = JStr fallback_text, sources = JArr [], intent = JStr (ascii ''rag''),
          isReminder = False, decoratedAnswer = JStr fallback_text\<rparr> \<and>
   reads_normally no_numeric_strings
     (JObj [(ascii ''answer'', JStr (ascii ''X'')), (ascii ''intent'', JStr (ascii ''reminder'')),
            (ascii ''contexts'', JArr [JNull])]) \<and>
   (\<exists>r. interpret_response no_numeric_strings
     (JObj [(ascii ''answer'', JStr (ascii ''X'')), (ascii ''intent'', JStr (ascii ''reminder'')),
            (ascii ''contexts'', JArr [JNull])]) = Inr r \<and> decoratedAnswer r = JStr (ascii ''X'')) \<and>
   reads_normally no_numeric_strings
     (JArr [JObj [(ascii ''page'', JNum 3)]]) \<and>
   reads_normally no_numeric_strings
     (JObj [(ascii ''answer'', JArr [JNum 1, JNum 2]),
            (ascii ''contexts'', JArr [JObj [(ascii ''page'', JNum 12)], JNull])]) \<and>
   (\<exists>r. interpret_response no_numeric_strings
     (JObj [(ascii ''answer'', JArr [JNum 1, JNum 2]),
            (ascii ''contexts'', JArr [JObj [(ascii ''page'', JNum 12)], JNull])]) = Inr r) \<and>
   \<not> reads_normally no_numeric_strings (JObj [(ascii ''contexts'', JArr [JNull])]) \<and>
   interpret_response no_numeric_strings (JObj [(ascii ''contexts'', JArr [JNull])]) =
     Inl TypeError"
proof -
  let ?rem = "JObj [(ascii ''answer'', JStr (ascii ''X'')), (ascii ''intent'', JStr (ascii ''reminder'')),
            (ascii ''contexts'', JArr [JNull])]"
  let ?arr = "JObj [(ascii ''answer'', JArr [JNum 1, JNum 2]),
            (ascii ''contexts'', JArr [JObj [(ascii ''page'', JNum 12)], JNull])]"
  let ?bad = "JObj [(ascii ''contexts'', JArr [JNull])]"
  have n0: "reads_normally no_numeric_strings (JObj [])"
    by (simp add: reads_normally_def nullish_def intent_of_def sources_of_def or_else_def
        read_def member_def greater_zero_def)
  have n1: "reads_normally no_numeric_strings ?rem"
    by (simp add: reads_normally_def nullish_def intent_of_def or_else_def read_def member_def)
  have n2: "reads_normally no_numeric_strings (JArr [JObj [(ascii ''page'', JNum 3)]])"
    by (simp add: reads_normally_def nullish_def intent_of_def sources_of_def or_else_def
        read_def member_def greater_zero_def array_index_def)
  have n3: "reads_normally no_numeric_strings ?arr"
    by (simp add: reads_normally_def nullish_def intent_of_def sources_of_def answer_of_def
        page_of_def or_else_def read_def member_def greater_zero_def has_string_form_def
        zero_not_length array_index_zero)
  have n4: "\<not> reads_normally no_numeric_strings ?bad"
    by (simp add: reads_normally_def nullish_def intent_of_def sources_of_def
        or_else_def read_def member_def greater_zero_def zero_not_length array_index_zero)
  have e4: "interpret_response no_numeric_strings ?bad = Inl TypeError"
    by (simp add: interpret_response_def member_def nullish_def decorate_first Let_def)
  have e1: "interpret_response no_numeric_strings ?rem =
      Inr \<lparr>answerText = JStr (ascii ''X''), sources = JArr [JNull],
           intent = JStr (ascii ''reminder''), isReminder = True,
           decoratedAnswer = JStr (ascii ''X'')\<rparr>"
    by (simp add: interpret_response_def member_def nullish_def Let_def)
  show ?thesis
    using reading_fails_exactly [of no_numeric_strings "JObj []"]
      reading_fails_exactly [of no_numeric_strings ?arr]
      reading_fails_exactly [of no_numeric_strings ?bad TypeError]
      n0 n1 n2 n3 n4 e1 e4
    by (simp add: member_def)
qed

text \<open>
  Claim C9 as stated fails: reading a response has a failure path. A response that is no
  reminder and whose first source fragment is \<^verbatim>\<open>null\<close>, and the response \<^verbatim>\<open>null\<close>
  itself, throw a \<^verbatim>\<open>TypeError\<close> (line 119 and line 111).
\<close>

theorem null_fragment_throws:
  "interpret_response no_numeric_strings (JObj [(ascii ''contexts'', JArr [JNull])]) = Inl TypeError \<and>
   interpret_response no_numeric_strings JNull = Inl TypeError"
  by (simp add: interpret_response_def member_def nullish_def decorate_first Let_def)

theorem display_text_citation_witness:
  "interpret_response no_numeric_strings
     (JObj [(ascii ''result'', JStr (ascii ''Y'')),
            (ascii ''contexts'', JArr [JObj [(ascii ''page'', JNum 12)]])]) =
     Inr \<lparr>answerText = JStr (ascii ''Y''),
          sources = JArr [JObj [(ascii ''page'', JNum 12)]],
          intent = JStr (ascii ''rag''), isReminder = False,
          decoratedAnswer = JStr (ascii ''Y'' @ citation_open @ ascii ''12'' @ citation_close)\<rparr> \<and>
   truthy (first_page [JObj [(ascii ''page'', JNum 12)]]) \<and>
   interpret_response no_numeric_strings
     (JObj [(ascii ''answer'', JStr (ascii ''X'')), (ascii ''intent'', JStr (ascii ''reminder''))]) =
     Inr \<lparr>answerText = JStr (ascii ''X''), sources = JArr [],
          intent = JStr (ascii ''reminder''), isReminder = True,
          decoratedAnswer = JStr (ascii ''X'')\<rparr>"
proof -
  let ?d1 = "JObj [(ascii ''result'', JStr (ascii ''Y'')),
            (ascii ''contexts'', JArr [JObj [(ascii ''page'', JNum 12)]])]"
  let ?r1 = "\<lparr>answerText = JStr (ascii ''Y''),
          sources = JArr [JObj [(ascii ''page'', JNum 12)]],
          intent = JStr (ascii ''rag''), isReminder = False,
          decoratedAnswer = JStr (ascii ''Y'' @ citation_open @ ascii ''12'' @ citation_close)\<rparr>"
  let ?d2 = "JObj [(ascii ''answer'', JStr (ascii ''X'')), (ascii ''intent'', JStr (ascii ''reminder''))]"
  let ?r2 = "\<lparr>answerText = JStr (ascii ''X''), sources = JArr [],
          intent = JStr (ascii ''reminder''), isReminder = True,
          decoratedAnswer = JStr (ascii ''X'')\<rparr>"
  have twelve: "int_str 12 = ascii ''12''"
    by (simp add: int_str_def nat_str.simps digit_def ascii_def)
  have e1: "interpret_response no_numeric_strings ?d1 = Inr ?r1"
    by (simp add: interpret_response_def member_def nullish_def decorate_first twelve Let_def)
  have e2: "interpret_response no_numeric_strings ?d2 = Inr ?r2"
    by (simp add: interpret_response_def member_def nullish_def Let_def)
  have s1: "sources ?r1 = JArr [JObj [(ascii ''page'', JNum 12)]]" by simp
  have s2: "sources ?r2 = JArr []" by simp
  show ?thesis
    using display_text_citation [OF e1 s1] display_text_citation [OF e2 s2] e1 e2
    by (simp add: member_def nullish_def)
qed

text \<open>
  Claim C2 as stated fails: a fragment whose page member is present does not suffice for
  the citation. In the first response the second fragment has page 12 and the first has no
  page; in the second response the only fragment has page 0. Neither is a reminder, and
  both are shown without the citation.
\<close>

theorem citation_only_first_truthy:
  "interpret_response no_numeric_strings
     (JObj [(ascii ''result'', JStr (ascii ''Y'')),
            (ascii ''contexts'', JArr [JObj [], JObj [(ascii ''page'', JNum 12)]])]) =
     Inr \<lparr>answerText = JStr (ascii ''Y''),
          sources = JArr [JObj [], JObj [(ascii ''page'', JNum 12)]],
          intent = JStr (ascii ''rag''), isReminder = False,
          decoratedAnswer = JStr (ascii ''Y'')\<rparr> \<and>
   get (JObj [(ascii ''page'', JNum 12)]) (ascii ''page'') = Inr (JNum 12) \<and>
   interpret_response no_numeric_strings
     (JObj [(ascii ''result'', JStr (ascii ''Y'')),
            (ascii ''contexts'', JArr [JObj [(ascii ''page'', JNum 0)]])]) =
     Inr \<lparr>answerText = JStr (ascii ''Y''),
          sources = JArr [JObj [(ascii ''page'', JNum 0)]],
          intent = JStr (ascii ''rag''), isReminder = False,
          decoratedAnswer = JStr (ascii ''Y'')\<rparr> \<and>
   get (JObj [(ascii ''page'', JNum 0)]) (ascii ''page'') = Inr (JNum 0)"
  by (simp add: interpret_response_def member_def nullish_def decorate_first Let_def)

text \<open>
  Claim C10. For a response that is no reminder and whose first source fragment has a
  \<^verbatim>\<open>page\<close> and a \<^verbatim>\<open>page_number\<close> that are both absent or falsy, the text shown is
  the answer text with no citation, whatever the later fragments are.
\<close>

theorem first_fragment_decides:
  assumes "get f (ascii ''page'') = Inr p" and "\<not> truthy p"
    and "get f (ascii ''page_number'') = Inr q" and "\<not> truthy q"
  shows "decorate pos answer (JArr (f # later)) False = Inr answer \<and>
         (interpret_response pos data = Inr r \<and> sources r = JArr (f # later) \<and> \<not> isReminder r \<longrightarrow>
            decoratedAnswer r = answerText r)"
proof -
  have pg: "\<exists>v. coalesce (get f (ascii ''page'')) (get f (ascii ''page_number'')) = Inr v \<and> \<not> truthy v"
    using assms by simp
  then have d: "decorate pos a (JArr (f # later)) False = Inr a" for a
    by (auto simp: decorate_first)
  show ?thesis
  proof (intro conjI impI)
    show "decorate pos answer (JArr (f # later)) False = Inr answer" by (rule d)
  next
    assume a: "interpret_response pos data = Inr r \<and> sources r = JArr (f # later) \<and> \<not> isReminder r"
    then have "decorate pos (answerText r) (JArr (f # later)) False = Inr (decoratedAnswer r)"
      using interpret_response_Inr(5) [of pos data r] by simp
    with d show "decoratedAnswer r = answerText r" by simp
  qed
qed

theorem first_fragment_decides_witness:
  "get (JObj [(ascii ''page'', JNum 0)]) (ascii ''page'') = Inr (JNum 0) \<and> \<not> truthy (JNum 0) \<and>
   get (JObj [(ascii ''page'', JNum 0)]) (ascii ''page_number'') = Inr JUndefined \<and>
   \<not> truthy JUndefined \<and>
   decorate no_numeric_strings (JStr (ascii ''Y''))
     (JArr [JObj [(ascii ''page'', JNum 0)], JObj [(ascii ''page'', JNum 7)]]) False =
     Inr (JStr (ascii ''Y'')) \<and>
   interpret_response no_numeric_strings
     (JObj [(ascii ''result'', JStr (ascii ''Y'')),
            (ascii ''contexts'', JArr [JObj [(ascii ''page'', JNum 0)], JObj [(ascii ''page'', JNum 7)]])]) =
     Inr \<lparr>answerText = JStr (ascii ''Y''),
          sources = JArr [JObj [(ascii ''page'', JNum 0)], JObj [(ascii ''page'', JNum 7)]],
          intent = JStr (ascii ''rag''), isReminder = False,
          decoratedAnswer = JStr (ascii ''Y'')\<rparr>"
proof -
  let ?f = "JObj [(ascii ''page'', JNum 0)]"
  let ?data = "JObj [(ascii ''result'', JStr (ascii ''Y'')),
            (ascii ''contexts'', JArr [?f, JObj [(ascii ''page'', JNum 7)]])]"
  have g1: "get ?f (ascii ''page'') = Inr (JNum 0)" by (simp add: member_def)
  have g2: "get ?f (ascii ''page_number'') = Inr JUndefined" by (simp add: member_def)
  have t1: "\<not> truthy (JNum 0)" by simp
  have t2: "\<not> truthy JUndefined" by simp
  note inst = first_fragment_decides [OF g1 t1 g2 t2, of no_numeric_strings "JStr (ascii ''Y'')"
      "[JObj [(ascii ''page'', JNum 7)]]" ?data]
  have e: "interpret_response no_numeric_strings ?data =
     Inr \<lparr>answerText = JStr (ascii ''Y''),
          sources = JArr [?f, JObj [(ascii ''page'', JNum 7)]],
          intent = JStr (ascii ''rag''), isReminder = False,
          decoratedAnswer = JStr (ascii ''Y'')\<rparr>"
    using inst by (simp add: interpret_response_def member_def nullish_def Let_def)
  show ?thesis using g1 g2 e inst by simp
qed

section \<open>Properties of the event store\<close>

lemma fetchEvents_settle_eq:
  "fetchEvents_settle resp s =
     (Inr (s\<lparr>calendarEvents := (case fetchEvents_try resp of Inr ev \<Rightarrow> ev | Inl e \<Rightarrow> JArr [])\<rparr>),
      (case fetchEvents_try resp of Inr ev \<Rightarrow> [] | Inl e \<Rightarrow> [ConsoleError e]))"
  by (cases "fetchEvents_try resp") (simp_all add: fetchEvents_settle_def)




section \<open>Properties of one call of handleSubmit\<close>

lemma handleSubmit_call_rejected:
  "trim (question s) = [] \<or> loading s \<Longrightarrow> handleSubmit_call now s = (Finished, s, [PreventDefault])"
  by (auto simp: handleSubmit_call_def)

lemma handleSubmit_call_accepted:
  "trim (question s) \<noteq> [] \<Longrightarrow> \<not> loading s \<Longrightarrow>
   handleSubmit_call now s =
     (AwaitRag,
      s\<lparr>messages := messages s @ [userMessage now (trim (question s))], question := [],
        loading := True\<rparr>,
      [PreventDefault, PostRag (trim (question s))])"
  by (simp add: handleSubmit_call_def Let_def)

lemma handleSubmit_answered_failed:
  "rag_try pos resp = Inl err \<Longrightarrow>
   handleSubmit_answered pos resp now s =
     (Finished, s\<lparr>messages := messages s @ [failureMessage now], loading := False\<rparr>,
      [ConsoleError err])"
  by (simp add: handleSubmit_answered_def catch_block_def finally_block_def)

lemma handleSubmit_answered_plain:
  "rag_try pos resp = Inr r \<Longrightarrow> \<not> isReminder r \<Longrightarrow>
   handleSubmit_answered pos resp now s =
     (Finished, s\<lparr>messages := messages s @ [agentMessage now r], loading := False\<rparr>, [])"
  by (simp add: handleSubmit_answered_def finally_block_def)

lemma handleSubmit_answered_reminder:
  "rag_try pos resp = Inr r \<Longrightarrow> isReminder r \<Longrightarrow>
   handleSubmit_answered pos resp now s =
     (AwaitEvents, s\<lparr>messages := messages s @ [agentMessage now r]\<rparr>, [GetEvents])"
  by (simp add: handleSubmit_answered_def)

lemma handleSubmit_refreshed_eq:
  "handleSubmit_refreshed resp now s =
     (Finished,
      s\<lparr>calendarEvents := (case fetchEvents_try resp of Inr ev \<Rightarrow> ev | Inl e \<Rightarrow> JArr []),
        loading := False\<rparr>,
      (case fetchEvents_try resp of Inr ev \<Rightarrow> [] | Inl e \<Rightarrow> [ConsoleError e]))"
  by (simp add: handleSubmit_refreshed_def fetchEvents_settle_eq finally_block_def)

text \<open>
  Claim C3. When the trimmed draft is empty, or \<^verbatim>\<open>loading\<close> is set, a submission changes
  nothing: the messages, the draft and \<^verbatim>\<open>loading\<close> stay as they are, and no request goes
  to the RAG backend (the only effect is \<^verbatim>\<open>preventDefault\<close>).
\<close>

theorem rejected_submit_is_noop:
  assumes "trim (question s) = [] \<or> loading s"
  shows "handleSubmit_call now s = (Finished, s, [PreventDefault]) \<and>
         handleSubmit pos w s = (s, [PreventDefault]) \<and>
         fire pos (Submit now) \<lparr>st = s, awaiting_rag = n, awaiting_events = m, awaiting_mount = k,
             trace = tr\<rparr> =
           Some \<lparr>st = s, awaiting_rag = n, awaiting_events = m, awaiting_mount = k,
             trace = tr @ [PreventDefault]\<rparr>"
  using assms
  by (simp add: handleSubmit_call_rejected handleSubmit_def fire_def)

theorem rejected_submit_is_noop_witness:
  "trim (question \<lparr>messages = [], question = ascii ''   '', loading = False,
                   calendarEvents = JArr []\<rparr>) = [] \<and>
   handleSubmit no_numeric_strings
     \<lparr>clock_call = 1, rag_response = Rejected, clock_answer = 2, events_response = Rejected,
      clock_catch = 3\<rparr>
     \<lparr>messages = [], question = ascii ''   '', loading = False, calendarEvents = JArr []\<rparr> =
     (\<lparr>messages = [], question = ascii ''   '', loading = False, calendarEvents = JArr []\<rparr>,
      [PreventDefault]) \<and>
   handleSubmit no_numeric_strings
     \<lparr>clock_call = 1, rag_response = Rejected, clock_answer = 2, events_response = Rejected,
      clock_catch = 3\<rparr>
     \<lparr>messages = [], question = ascii ''hi'', loading = True, calendarEvents = JArr []\<rparr> =
     (\<lparr>messages = [], question = ascii ''hi'', loading = True, calendarEvents = JArr []\<rparr>,
      [PreventDefault])"
proof -
  let ?s1 = "\<lparr>messages = [], question = ascii ''   '', loading = False, calendarEvents = JArr []\<rparr>"
  let ?s2 = "\<lparr>messages = [], question = ascii ''hi'', loading = True, calendarEvents = JArr []\<rparr>"
  have a: "trim (question ?s1) = []" by (simp add: trim_def ascii_def is_space_def)
  then have h1: "trim (question ?s1) = [] \<or> loading ?s1" by simp
  have h2: "trim (question ?s2) = [] \<or> loading ?s2" by simp
  show ?thesis
    using a rejected_submit_is_noop [OF h1] rejected_submit_is_noop [OF h2] by simp
qed

lemma get_total: "get data k = Inr v \<Longrightarrow> \<exists>v'. get data k' = Inr v'"
  by (cases data) simp_all

lemma coalesce_total:
  "a = Inr v \<Longrightarrow> b = Inr v' \<Longrightarrow> \<exists>u. coalesce a b = Inr u"
  by simp

lemma interpret_reminder:
  assumes "get data (ascii ''intent'') = Inr (JStr (ascii ''reminder''))"
  shows "\<exists>r. interpret_response pos data = Inr r \<and> isReminder r"
proof -
  obtain a1 where a1: "get data (ascii ''answer'') = Inr a1" using get_total [OF assms] by blast
  obtain a2 where a2: "get data (ascii ''result'') = Inr a2" using get_total [OF assms] by blast
  obtain c1 where c1: "get data (ascii ''contexts'') = Inr c1" using get_total [OF assms] by blast
  obtain c2 where c2: "get data (ascii ''sources'') = Inr c2" using get_total [OF assms] by blast
  show ?thesis
    by (simp add: interpret_response_def a1 a2 c1 c2 assms nullish_def Let_def)
qed

lemma interpret_not_reminder:
  assumes "interpret_response pos data = Inr r"
    and "get data (ascii ''intent'') = Inr (JStr (ascii ''rag'')) \<or>
         get data (ascii ''intent'') = Inr JUndefined"
  shows "\<not> isReminder r"
proof -
  have "coalesce (get data (ascii ''intent'')) (Inr (JStr (ascii ''rag''))) = Inr (intent r)"
    by (rule interpret_response_Inr(3) [OF assms(1)])
  with assms(2) have "intent r = JStr (ascii ''rag'')"
    by (auto simp: nullish_def)
  then show ?thesis using interpret_response_Inr(4) [OF assms(1)] by simp
qed

lemma refreshed_no_request: "GetEvents \<notin> set (snd (snd (handleSubmit_refreshed resp now s)))"
  by (cases "fetchEvents_try resp") (simp_all add: handleSubmit_refreshed_eq)

text \<open>
  Claim C5. An accepted submission whose response has the intent \<^verbatim>\<open>reminder\<close> calls
  \<^verbatim>\<open>fetchEvents\<close> exactly once; one whose response has the intent \<^verbatim>\<open>rag\<close>, or no
  intent, never calls it.
\<close>

theorem refresh_once_on_reminder:
  assumes "trim (question s) \<noteq> []" and "\<not> loading s"
    and "rag_response w = Response status (Some data)"
  shows "(ok status \<and> get data (ascii ''intent'') = Inr (JStr (ascii ''reminder'')) \<longrightarrow>
            count_list (snd (handleSubmit pos w s)) GetEvents = 1) \<and>
         (get data (ascii ''intent'') = Inr (JStr (ascii ''rag'')) \<or>
          get data (ascii ''intent'') = Inr JUndefined \<longrightarrow>
            count_list (snd (handleSubmit pos w s)) GetEvents = 0)"
proof (intro conjI impI)
  assume a: "ok status \<and> get data (ascii ''intent'') = Inr (JStr (ascii ''reminder''))"
  then obtain r where r: "interpret_response pos data = Inr r" "isReminder r"
    using interpret_reminder by blast
  then have t: "rag_try pos (rag_response w) = Inr r" using a assms(3) by (simp add: rag_try_def)
  show "count_list (snd (handleSubmit pos w s)) GetEvents = 1"
    using assms(1,2) r(2)
    by (simp add: handleSubmit_def handleSubmit_call_accepted handleSubmit_answered_reminder [OF t]
        handleSubmit_refreshed_eq split: sum.splits)
next
  assume a: "get data (ascii ''intent'') = Inr (JStr (ascii ''rag'')) \<or>
          get data (ascii ''intent'') = Inr JUndefined"
  show "count_list (snd (handleSubmit pos w s)) GetEvents = 0"
  proof (cases "rag_try pos (rag_response w)")
    case (Inl err)
    then show ?thesis using assms(1,2)
      by (simp add: handleSubmit_def handleSubmit_call_accepted handleSubmit_answered_failed)
  next
    case (Inr r)
    then have "interpret_response pos data = Inr r" using assms(3)
      by (auto simp: rag_try_def split: if_splits)
    then have "\<not> isReminder r" using a by (rule interpret_not_reminder)
    then show ?thesis using assms(1,2) Inr
      by (simp add: handleSubmit_def handleSubmit_call_accepted handleSubmit_answered_plain)
  qed
qed

theorem refresh_once_on_reminder_witness:
  "count_list (snd (handleSubmit no_numeric_strings
     \<lparr>clock_call = 1,
      rag_response = Response 200 (Some (JObj [(ascii ''answer'', JStr (ascii ''ok'')),
                                               (ascii ''intent'', JStr (ascii ''reminder''))])),
      clock_answer = 2, events_response = Response 500 None, clock_catch = 3\<rparr>
     \<lparr>messages = [], question = ascii ''test'', loading = False, calendarEvents = JArr []\<rparr>))
     GetEvents = 1 \<and>
   count_list (snd (handleSubmit no_numeric_strings
     \<lparr>clock_call = 1,
      rag_response = Response 200 (Some (JObj [(ascii ''answer'', JStr (ascii ''ok'')),
                                               (ascii ''intent'', JStr (ascii ''rag''))])),
      clock_answer = 2, events_response = Response 500 None, clock_catch = 3\<rparr>
     \<lparr>messages = [], question = ascii ''test'', loading = False, calendarEvents = JArr []\<rparr>))
     GetEvents = 0"
proof -
  let ?s = "\<lparr>messages = [], question = ascii ''test'', loading = False, calendarEvents = JArr []\<rparr>"
  let ?d1 = "JObj [(ascii ''answer'', JStr (ascii ''ok'')), (ascii ''intent'', JStr (ascii ''reminder''))]"
  let ?d2 = "JObj [(ascii ''answer'', JStr (ascii ''ok'')), (ascii ''intent'', JStr (ascii ''rag''))]"
  let ?w1 = "\<lparr>clock_call = 1, rag_response = Response 200 (Some ?d1),
      clock_answer = 2, events_response = Response 500 None, clock_catch = 3\<rparr>"
  let ?w2 = "\<lparr>clock_call = 1, rag_response = Response 200 (Some ?d2),
      clock_answer = 2, events_response = Response 500 None, clock_catch = 3\<rparr>"
  have q: "trim (question ?s) \<noteq> []" by (simp add: trim_def ascii_def is_space_def)
  have l: "\<not> loading ?s" by simp
  have r1: "rag_response ?w1 = Response 200 (Some ?d1)" by simp
  have r2: "rag_response ?w2 = Response 200 (Some ?d2)" by simp
  have i1: "get ?d1 (ascii ''intent'') = Inr (JStr (ascii ''reminder''))" by (simp add: member_def)
  have i2: "get ?d2 (ascii ''intent'') = Inr (JStr (ascii ''rag''))" by (simp add: member_def)
  have k: "ok 200" by (simp add: ok_def)
  show ?thesis
    using refresh_once_on_reminder [OF q l r1, of no_numeric_strings]
      refresh_once_on_reminder [OF q l r2, of no_numeric_strings] i1 i2 k
    by simp
qed

section \<open>Properties of the session\<close>

lemma handleSubmit_answered_cases:
  obtains (failed) err where "rag_try pos resp = Inl err"
      "handleSubmit_answered pos resp now s =
         (Finished, s\<lparr>messages := messages s @ [failureMessage now], loading := False\<rparr>,
          [ConsoleError err])"
  | (plain) r where "rag_try pos resp = Inr r" "\<not> isReminder r"
      "handleSubmit_answered pos resp now s =
         (Finished, s\<lparr>messages := messages s @ [agentMessage now r], loading := False\<rparr>, [])"
  | (reminder) r where "rag_try pos resp = Inr r" "isReminder r"
      "handleSubmit_answered pos resp now s =
         (AwaitEvents, s\<lparr>messages := messages s @ [agentMessage now r]\<rparr>, [GetEvents])"
proof (cases "rag_try pos resp")
  case (Inl err)
  then show ?thesis using failed handleSubmit_answered_failed by blast
next
  case (Inr r)
  then show ?thesis
    using plain reminder handleSubmit_answered_plain handleSubmit_answered_reminder
    by (cases "isReminder r") blast+
qed

lemma handleSubmit_loading:
  assumes "trim (question s) \<noteq> []" and "\<not> loading s"
  shows "\<not> loading (fst (handleSubmit pos w s))"
proof (cases rule: handleSubmit_answered_cases [of pos "rag_response w" "clock_answer w"
      "s\<lparr>messages := messages s @ [userMessage (clock_call w) (trim (question s))], question := [],
        loading := True\<rparr>"])
  case (failed err)
  then show ?thesis using assms
    by (simp add: handleSubmit_def handleSubmit_call_accepted)
next
  case (plain r)
  then show ?thesis using assms
    by (simp add: handleSubmit_def handleSubmit_call_accepted)
next
  case (reminder r)
  then show ?thesis using assms
    by (simp add: handleSubmit_def handleSubmit_call_accepted handleSubmit_refreshed_eq)
qed

lemma fire_Change:
  "fire pos (Change v) c =
     (if loading (st c) then None else Some (c\<lparr>st := (st c)\<lparr>question := v\<rparr>\<rparr>))"
  by (simp add: fire_def)

lemma fire_Submit:
  "fire pos (Submit now) c =
     (if trim (question (st c)) = [] \<or> loading (st c)
      then Some (c\<lparr>trace := trace c @ [PreventDefault]\<rparr>)
      else Some (c\<lparr>st := (st c)\<lparr>messages := messages (st c) @
                          [userMessage now (trim (question (st c)))],
                        question := [], loading := True\<rparr>,
                  awaiting_rag := awaiting_rag c + 1,
                  trace := trace c @ [PreventDefault, PostRag (trim (question (st c)))]\<rparr>))"
  by (auto simp: fire_def handleSubmit_call_def Let_def)

lemma fire_EventsSettled:
  "fire pos (EventsSettled resp now) c =
     (if awaiting_events c = 0 then None
      else Some (c\<lparr>st := (st c)\<lparr>calendarEvents :=
                          (case fetchEvents_try resp of Inr ev \<Rightarrow> ev | Inl e \<Rightarrow> JArr []),
                        loading := False\<rparr>,
                  awaiting_events := awaiting_events c - 1,
                  trace := trace c @
                    (case fetchEvents_try resp of Inr ev \<Rightarrow> [] | Inl e \<Rightarrow> [ConsoleError e])\<rparr>))"
  by (simp add: fire_def handleSubmit_refreshed_eq)

lemma fire_MountSettled:
  "fire pos (MountSettled resp) c =
     (if awaiting_mount c = 0 then None
      else Some (c\<lparr>st := (st c)\<lparr>calendarEvents :=
                          (case fetchEvents_try resp of Inr ev \<Rightarrow> ev | Inl e \<Rightarrow> JArr [])\<rparr>,
                  awaiting_mount := awaiting_mount c - 1,
                  trace := trace c @
                    (case fetchEvents_try resp of Inr ev \<Rightarrow> [] | Inl e \<Rightarrow> [ConsoleError e])\<rparr>))"
  by (simp add: fire_def fetchEvents_settle_eq)

lemma fire_RagSettled:
  "fire pos (RagSettled resp now) c =
     (if awaiting_rag c = 0 then None
      else (case rag_try pos resp of
              Inl err \<Rightarrow>
                Some (c\<lparr>st := (st c)\<lparr>messages := messages (st c) @ [failureMessage now],
                                   loading := False\<rparr>,
                        awaiting_rag := awaiting_rag c - 1,
                        trace := trace c @ [ConsoleError err]\<rparr>)
            | Inr r \<Rightarrow>
                if isReminder r
                then Some (c\<lparr>st := (st c)\<lparr>messages := messages (st c) @ [agentMessage now r]\<rparr>,
                             awaiting_rag := awaiting_rag c - 1,
                             awaiting_events := awaiting_events c + 1,
                             trace := trace c @ [GetEvents]\<rparr>)
                else Some (c\<lparr>st := (st c)\<lparr>messages := messages (st c) @ [agentMessage now r],
                                        loading := False\<rparr>,
                             awaiting_rag := awaiting_rag c - 1,
                             trace := trace c\<rparr>)))"
  by (cases "rag_try pos resp")
    (simp_all add: fire_def handleSubmit_answered_failed handleSubmit_answered_plain
      handleSubmit_answered_reminder)

lemmas fire_simps = fire_Change fire_Submit fire_RagSettled fire_EventsSettled fire_MountSettled

lemma fire_in_flight:
  assumes "fire pos e c = Some c'" and "in_flight_ok c"
  shows "in_flight_ok c'"
proof (cases e)
  case (Change v)
  with assms show ?thesis by (auto simp: fire_simps in_flight_ok_def split: if_splits)
next
  case (Submit now)
  with assms show ?thesis by (auto simp: fire_simps in_flight_ok_def split: if_splits)
next
  case (RagSettled resp now)
  with assms show ?thesis
    by (auto simp: fire_simps in_flight_ok_def split: if_splits sum.splits)
next
  case (EventsSettled resp now)
  with assms show ?thesis by (auto simp: fire_simps in_flight_ok_def split: if_splits)
next
  case (MountSettled resp)
  with assms show ?thesis by (auto simp: fire_simps in_flight_ok_def split: if_splits)
qed

lemma run_in_flight:
  "run pos es c = Some c' \<Longrightarrow> in_flight_ok c \<Longrightarrow> in_flight_ok c'"
proof (induction es arbitrary: c)
  case Nil
  then show ?case by simp
next
  case (Cons e es)
  then show ?case
    by (auto split: option.splits dest: fire_in_flight)
qed

lemma initial_in_flight: "in_flight_ok initial"
  by (simp add: in_flight_ok_def initial_def)

text \<open>
  Claim C4. Every accepted call of \<^verbatim>\<open>handleSubmit\<close> ends with \<^verbatim>\<open>loading\<close> cleared,
  however its requests end. In every reachable configuration one call waits while
  \<^verbatim>\<open>loading\<close> is set and none otherwise; \<^verbatim>\<open>loading\<close> becomes set only by a
  submission, and every accepted submission sets it; it becomes cleared only when a request
  settles, and it is cleared whenever the waiting call returns.
\<close>

theorem session_idle_sending:
  "(trim (question s) \<noteq> [] \<and> \<not> loading s \<longrightarrow> \<not> loading (fst (handleSubmit pos w s))) \<and>
   (run pos es initial = Some c \<longrightarrow>
      awaiting_rag c + awaiting_events c = (if loading (st c) then 1 else 0) \<and>
      (fire pos e c = Some c' \<longrightarrow>
         (\<not> loading (st c) \<and> loading (st c') \<longrightarrow> (\<exists>now. e = Submit now)) \<and>
         (loading (st c) \<and> \<not> loading (st c') \<longrightarrow>
            (\<exists>resp now. e = RagSettled resp now \<or> e = EventsSettled resp now)) \<and>
         ((\<exists>now. e = Submit now) \<and> trim (question (st c)) \<noteq> [] \<and> \<not> loading (st c) \<longrightarrow>
            loading (st c')) \<and>
         ((\<exists>resp now. e = EventsSettled resp now \<or>
                      e = RagSettled resp now \<and> awaiting_events c' = 0) \<longrightarrow>
            \<not> loading (st c'))))"
proof (intro conjI impI)
  assume "trim (question s) \<noteq> [] \<and> \<not> loading s"
  then show "\<not> loading (fst (handleSubmit pos w s))" by (simp add: handleSubmit_loading)
next
  assume "run pos es initial = Some c"
  then have "in_flight_ok c" using initial_in_flight by (rule run_in_flight)
  then show "awaiting_rag c + awaiting_events c = (if loading (st c) then 1 else 0)"
    by (simp add: in_flight_ok_def)
next
  assume "fire pos e c = Some c'" and "\<not> loading (st c) \<and> loading (st c')"
  then show "\<exists>now. e = Submit now"
    by (cases e) (auto simp: fire_simps split: if_splits sum.splits)
next
  assume "fire pos e c = Some c'" and "loading (st c) \<and> \<not> loading (st c')"
  then show "\<exists>resp now. e = RagSettled resp now \<or> e = EventsSettled resp now"
    by (cases e) (auto simp: fire_simps split: if_splits sum.splits)
next
  assume "fire pos e c = Some c'"
    and "(\<exists>now. e = Submit now) \<and> trim (question (st c)) \<noteq> [] \<and> \<not> loading (st c)"
  then show "loading (st c')" by (auto simp: fire_simps)
next
  assume r: "run pos es initial = Some c" and f: "fire pos e c = Some c'"
    and e: "\<exists>resp now. e = EventsSettled resp now \<or> e = RagSettled resp now \<and> awaiting_events c' = 0"
  have "in_flight_ok c" using r initial_in_flight by (rule run_in_flight)
  then have i: "awaiting_rag c + awaiting_events c = (if loading (st c) then 1 else 0)"
    by (simp add: in_flight_ok_def)
  from e f i show "\<not> loading (st c')"
    by (auto simp: fire_simps split: if_splits sum.splits)
qed

lemma ascii_Nil_iff [simp]: "ascii s = [] \<longleftrightarrow> s = []"
  by (simp add: ascii_def)

lemma trim_hi: "trim (ascii ''hi'') = ascii ''hi''"
  by (simp add: trim_def ascii_def is_space_def)

lemma rag_try_reminder_answer:
  "rag_try pos (Response 200 (Some reminder_answer)) =
     Inr \<lparr>answerText = JStr (ascii ''ok''), sources = JArr [],
          intent = JStr (ascii ''reminder''), isReminder = True,
          decoratedAnswer = JStr (ascii ''ok'')\<rparr>"
  by (simp add: rag_try_def ok_def reminder_answer_def interpret_response_def member_def
      nullish_def Let_def)

lemma run_append:
  "run pos (es @ es') c = (case run pos es c of None \<Rightarrow> None | Some c' \<Rightarrow> run pos es' c')"
  by (induction es arbitrary: c) (simp_all split: option.splits)

lemma run_until_answer:
  "run pos [Change (ascii ''hi''), Submit 1, RagSettled (Response 200 (Some reminder_answer)) 2]
     initial =
   Some \<lparr>st = \<lparr>messages =
                [userMessage 1 (ascii ''hi''),
                 agentMessage 2 \<lparr>answerText = JStr (ascii ''ok''), sources = JArr [],
                   intent = JStr (ascii ''reminder''), isReminder = True,
                   decoratedAnswer = JStr (ascii ''ok'')\<rparr>],
              question = [], loading = True, calendarEvents = JArr []\<rparr>,
         awaiting_rag = 0, awaiting_events = 1, awaiting_mount = 1,
         trace = [GetEvents, PreventDefault, PostRag (ascii ''hi''), GetEvents]\<rparr>"
  by (simp add: fire_simps initial_def trim_hi rag_try_reminder_answer)

theorem session_idle_sending_witness:
  "run no_numeric_strings
     [Change (ascii ''hi''), Submit 1, RagSettled (Response 200 (Some reminder_answer)) 2] initial =
   Some \<lparr>st = \<lparr>messages =
                [userMessage 1 (ascii ''hi''),
                 agentMessage 2 \<lparr>answerText = JStr (ascii ''ok''), sources = JArr [],
                   intent = JStr (ascii ''reminder''), isReminder = True,
                   decoratedAnswer = JStr (ascii ''ok'')\<rparr>],
              question = [], loading = True, calendarEvents = JArr []\<rparr>,
         awaiting_rag = 0, awaiting_events = 1, awaiting_mount = 1,
         trace = [GetEvents, PreventDefault, PostRag (ascii ''hi''), GetEvents]\<rparr> \<and>
   fire no_numeric_strings (EventsSettled (Response 500 None) 3)
     \<lparr>st = \<lparr>messages =
                [userMessage 1 (ascii ''hi''),
                 agentMessage 2 \<lparr>answerText = JStr (ascii ''ok''), sources = JArr [],
                   intent = JStr (ascii ''reminder''), isReminder = True,
                   decoratedAnswer = JStr (ascii ''ok'')\<rparr>],
              question = [], loading = True, calendarEvents = JArr []\<rparr>,
         awaiting_rag = 0, awaiting_events = 1, awaiting_mount = 1,
         trace = [GetEvents, PreventDefault, PostRag (ascii ''hi''), GetEvents]\<rparr> =
   Some \<lparr>st = \<lparr>messages =
                [userMessage 1 (ascii ''hi''),
                 agentMessage 2 \<lparr>answerText = JStr (ascii ''ok''), sources = JArr [],
                   intent = JStr (ascii ''reminder''), isReminder = True,
                   decoratedAnswer = JStr (ascii ''ok'')\<rparr>],
              question = [], loading = False, calendarEvents = JArr []\<rparr>,
         awaiting_rag = 0, awaiting_events = 0, awaiting_mount = 1,
         trace = [GetEvents, PreventDefault, PostRag (ascii ''hi''), GetEvents,
                  ConsoleError (ApiError 500)]\<rparr> \<and>
   \<not> loading (fst (handleSubmit no_numeric_strings
     \<lparr>clock_call = 1, rag_response = Rejected, clock_answer = 2, events_response = Rejected,
      clock_catch = 3\<rparr>
     \<lparr>messages = [], question = ascii ''hi'', loading = False, calendarEvents = JArr []\<rparr>))"
proof -
  let ?c = "\<lparr>st = \<lparr>messages =
                [userMessage 1 (ascii ''hi''),
                 agentMessage 2 \<lparr>answerText = JStr (ascii ''ok''), sources = JArr [],
                   intent = JStr (ascii ''reminder''), isReminder = True,
                   decoratedAnswer = JStr (ascii ''ok'')\<rparr>],
              question = [], loading = True, calendarEvents = JArr []\<rparr>,
         awaiting_rag = 0, awaiting_events = 1, awaiting_mount = 1,
         trace = [GetEvents, PreventDefault, PostRag (ascii ''hi''), GetEvents]\<rparr>"
  let ?c' = "\<lparr>st = \<lparr>messages =
                [userMessage 1 (ascii ''hi''),
                 agentMessage 2 \<lparr>answerText = JStr (ascii ''ok''), sources = JArr [],
                   intent = JStr (ascii ''reminder''), isReminder = True,
                   decoratedAnswer = JStr (ascii ''ok'')\<rparr>],
              question = [], loading = False, calendarEvents = JArr []\<rparr>,
         awaiting_rag = 0, awaiting_events = 0, awaiting_mount = 1,
         trace = [GetEvents, PreventDefault, PostRag (ascii ''hi''), GetEvents,
                  ConsoleError (ApiError 500)]\<rparr>"
  let ?s = "\<lparr>messages = [], question = ascii ''hi'', loading = False, calendarEvents = JArr []\<rparr>"
  let ?w = "\<lparr>clock_call = 1, rag_response = Rejected, clock_answer = 2,
             events_response = Rejected, clock_catch = 3\<rparr>"
  have r: "run no_numeric_strings
     [Change (ascii ''hi''), Submit 1, RagSettled (Response 200 (Some reminder_answer)) 2] initial
     = Some ?c"
    by (rule run_until_answer)
  have f: "fire no_numeric_strings (EventsSettled (Response 500 None) 3) ?c = Some ?c'"
    by (simp add: fire_simps fetchEvents_try_def ok_def)
  have q: "trim (question ?s) \<noteq> [] \<and> \<not> loading ?s" by (simp add: trim_hi)
  show ?thesis
    using session_idle_sending [of ?s no_numeric_strings ?w
        "[Change (ascii ''hi''), Submit 1, RagSettled (Response 200 (Some reminder_answer)) 2]"
        ?c "EventsSettled (Response 500 None) 3" ?c'] r f q
    by simp
qed

text \<open>
  Claim C7 as stated fails: \<^verbatim>\<open>fetchEvents\<close> is awaited (line 135). After the answer of
  a reminder has been appended, \<^verbatim>\<open>loading\<close> is still set and the call waits for the
  refresh; until the refresh settles the draft cannot be edited.
\<close>

theorem refresh_holds_the_turn:
  "run no_numeric_strings
     [Change (ascii ''hi''), Submit 1, RagSettled (Response 200 (Some reminder_answer)) 2] initial =
   Some \<lparr>st = \<lparr>messages =
                [userMessage 1 (ascii ''hi''),
                 agentMessage 2 \<lparr>answerText = JStr (ascii ''ok''), sources = JArr [],
                   intent = JStr (ascii ''reminder''), isReminder = True,
                   decoratedAnswer = JStr (ascii ''ok'')\<rparr>],
              question = [], loading = True, calendarEvents = JArr []\<rparr>,
         awaiting_rag = 0, awaiting_events = 1, awaiting_mount = 1,
         trace = [GetEvents, PreventDefault, PostRag (ascii ''hi''), GetEvents]\<rparr> \<and>
   run no_numeric_strings
     [Change (ascii ''hi''), Submit 1, RagSettled (Response 200 (Some reminder_answer)) 2,
      Change (ascii ''more'')] initial = None"
proof -
  have "run no_numeric_strings
     ([Change (ascii ''hi''), Submit 1, RagSettled (Response 200 (Some reminder_answer)) 2] @
      [Change (ascii ''more'')]) initial = None"
    by (simp only: run_append run_until_answer) (simp add: fire_simps)
  then have "run no_numeric_strings
     [Change (ascii ''hi''), Submit 1, RagSettled (Response 200 (Some reminder_answer)) 2,
      Change (ascii ''more'')] initial = None"
    by (simp only: append.simps)
  with run_until_answer [of no_numeric_strings] show ?thesis by (rule conjI)
qed

text \<open>
  Claim C7, as amended. For a response with the intent \<^verbatim>\<open>reminder\<close> the agent message
  is appended before the refresh is requested, and \<^verbatim>\<open>loading\<close> stays set while the
  refresh is awaited. When the refresh settles, however it ends, the call returns with
  \<^verbatim>\<open>loading\<close> cleared and the messages as they were: a failing refresh adds no failure
  message to the turn.
\<close>

theorem refresh_awaited_by_turn:
  assumes "rag_try pos resp = Inr r" and "isReminder r"
  shows "handleSubmit_answered pos resp now s =
           (AwaitEvents, s\<lparr>messages := messages s @ [agentMessage now r]\<rparr>, [GetEvents]) \<and>
         fst (handleSubmit_refreshed ev now' s') = Finished \<and>
         messages (fst (snd (handleSubmit_refreshed ev now' s'))) = messages s' \<and>
         \<not> loading (fst (snd (handleSubmit_refreshed ev now' s'))) \<and>
         (trim (question s) \<noteq> [] \<and> \<not> loading s \<and> rag_response w = resp \<longrightarrow>
            messages (fst (handleSubmit pos w s)) =
              messages s @ [userMessage (clock_call w) (trim (question s)),
                            agentMessage (clock_answer w) r] \<and>
            \<not> loading (fst (handleSubmit pos w s)))"
  using assms
  by (simp add: handleSubmit_answered_reminder handleSubmit_refreshed_eq handleSubmit_def
      handleSubmit_call_accepted)

theorem refresh_awaited_by_turn_witness:
  "rag_try no_numeric_strings (Response 200 (Some reminder_answer)) =
     Inr \<lparr>answerText = JStr (ascii ''ok''), sources = JArr [],
          intent = JStr (ascii ''reminder''), isReminder = True,
          decoratedAnswer = JStr (ascii ''ok'')\<rparr> \<and>
   handleSubmit_answered no_numeric_strings (Response 200 (Some reminder_answer)) 2
     \<lparr>messages = [], question = [], loading = True, calendarEvents = JArr []\<rparr> =
     (AwaitEvents,
      \<lparr>messages = [agentMessage 2 \<lparr>answerText = JStr (ascii ''ok''), sources = JArr [],
          intent = JStr (ascii ''reminder''), isReminder = True,
          decoratedAnswer = JStr (ascii ''ok'')\<rparr>],
       question = [], loading = True, calendarEvents = JArr []\<rparr>,
      [GetEvents])"
proof -
  let ?r = "\<lparr>answerText = JStr (ascii ''ok''), sources = JArr [],
          intent = JStr (ascii ''reminder''), isReminder = True,
          decoratedAnswer = JStr (ascii ''ok'')\<rparr>"
  have t: "rag_try no_numeric_strings (Response 200 (Some reminder_answer)) = Inr ?r"
    by (rule rag_try_reminder_answer)
  have i: "isReminder ?r" by simp
  show ?thesis
    using t refresh_awaited_by_turn [OF t i, of 2
        "\<lparr>messages = [], question = [], loading = True, calendarEvents = JArr []\<rparr>"]
    by simp
qed

lemma unat_digit: "d < 10 \<Longrightarrow> unat (digit d) = 48 + d"
  by (simp only: digit_def unat_of_nat) simp

lemma digit_value_digit: "d < 10 \<Longrightarrow> digit_value (digit d) = d"
  by (simp add: digit_value_def unat_digit)

lemma digit_not_hyphen: "d < 10 \<Longrightarrow> digit d \<noteq> 0x2D"
proof
  assume "d < 10" and "digit d = 0x2D"
  then have "unat (digit d) = unat (0x2D :: code_unit)" by simp
  with \<open>d < 10\<close> show False by (simp add: unat_digit)
qed

lemma dec_snoc: "dec (s @ [c]) = 10 * dec s + digit_value c"
  by (simp add: dec_def)

lemma dec_nat_str: "dec (nat_str n) = n"
proof (induction n rule: nat_str.induct)
  case (1 n)
  show ?case
  proof (cases "n < 10")
    case True
    then show ?thesis
      by (subst nat_str.simps) (simp add: dec_def digit_value_digit)
  next
    case False
    then have "dec (nat_str (n div 10)) = n div 10" using "1" by simp
    with False show ?thesis
      by (subst nat_str.simps) (simp add: dec_snoc digit_value_digit)
  qed
qed

lemma nat_str_head: "nat_str n \<noteq> [] \<and> hd (nat_str n) \<noteq> 0x2D"
proof (induction n rule: nat_str.induct)
  case (1 n)
  show ?case
  proof (cases "n < 10")
    case True
    then show ?thesis
      by (subst (1 2) nat_str.simps) (simp add: digit_not_hyphen)
  next
    case False
    with "1" show ?thesis
      by (subst (1 2) nat_str.simps) simp
  qed
qed

lemma signed_dec_int_str: "signed_dec (int_str i) = i"
proof (cases "i < 0")
  case True
  then show ?thesis
    by (simp add: int_str_def signed_dec_def ascii_def dec_nat_str)
next
  case False
  obtain c cs where s: "nat_str (nat i) = c # cs" using nat_str_head [of "nat i"]
    by (cases "nat_str (nat i)") auto
  then have "c \<noteq> 0x2D" using nat_str_head [of "nat i"] by simp
  with s False show ?thesis
    using dec_nat_str [of "nat i"] by (simp add: int_str_def signed_dec_def)
qed

lemma id_clock_user: "id_clock (ascii ''user-'' @ int_str t) = t"
  by (simp add: id_clock_def ascii_def signed_dec_int_str)

lemma id_clock_agent: "id_clock (ascii ''agent-'' @ int_str t) = t"
  by (simp add: id_clock_def ascii_def signed_dec_int_str)

lemma id_clock_messages [simp]:
  "id_clock (id' (userMessage now q)) = now"
  "id_clock (id' (agentMessage now r)) = now"
  "id_clock (id' (failureMessage now)) = now"
  by (simp_all add: userMessage_def agentMessage_def failureMessage_def id_clock_user
      id_clock_agent)

lemma id_of_messages:
  "id' (userMessage now q) = id_of (ascii ''user'', now)"
  "id' (agentMessage now r) = id_of (ascii ''agent'', now)"
  "id' (failureMessage now) = id_of (ascii ''agent'', now)"
  by (simp_all add: userMessage_def agentMessage_def failureMessage_def id_of_def ascii_def)

text \<open>Every event appends the messages of the readings it takes, and no other.\<close>

lemma fire_created:
  assumes "fire pos e c = Some c'"
  shows "map id' (messages (st c')) = map id' (messages (st c)) @ map id_of (created e c)"
proof (cases e)
  case (Change v)
  with assms show ?thesis by (auto simp: fire_simps created_def split: if_splits)
next
  case (Submit now)
  with assms show ?thesis
    by (auto simp: fire_simps created_def id_of_messages split: if_splits)
next
  case (RagSettled resp now)
  with assms show ?thesis
    by (auto simp: fire_simps created_def id_of_messages split: if_splits sum.splits)
next
  case (EventsSettled resp now)
  with assms show ?thesis by (auto simp: fire_simps created_def split: if_splits)
next
  case (MountSettled resp)
  with assms show ?thesis by (auto simp: fire_simps created_def split: if_splits)
qed

lemma run_taken:
  "run pos es c = Some c' \<Longrightarrow>
   map id' (messages (st c')) = map id' (messages (st c)) @ map id_of (taken pos es c)"
proof (induction es arbitrary: c)
  case Nil
  then show ?case by simp
next
  case (Cons e es)
  from Cons.prems obtain c1 where f: "fire pos e c = Some c1" and r: "run pos es c1 = Some c'"
    by (auto split: option.splits)
  from Cons.IH [OF r] fire_created [OF f] f show ?case by simp
qed

lemma created_roles:
  "p \<in> set (created e c) \<Longrightarrow> fst p = ascii ''user'' \<or> fst p = ascii ''agent''"
  by (cases e) (auto simp: created_def split: if_splits)

lemma taken_roles:
  "p \<in> set (taken pos es c) \<Longrightarrow> fst p = ascii ''user'' \<or> fst p = ascii ''agent''"
proof (induction es arbitrary: c)
  case Nil
  then show ?case by simp
next
  case (Cons e es)
  then show ?case using created_roles [of p e c]
    by (auto split: option.splits)
qed

lemma id_clock_id_of:
  "fst p = ascii ''user'' \<or> fst p = ascii ''agent'' \<Longrightarrow> id_clock (id_of p) = snd p"
  using id_clock_user [of "snd p"] id_clock_agent [of "snd p"]
  by (auto simp: id_of_def ascii_def)

lemma id_of_inj:
  assumes "fst p = ascii ''user'' \<or> fst p = ascii ''agent''"
    and "fst q = ascii ''user'' \<or> fst q = ascii ''agent''"
    and "id_of p = id_of q"
  shows "p = q"
proof -
  have "id_clock (id_of p) = id_clock (id_of q)" using assms(3) by simp
  then have t: "snd p = snd q" using assms(1,2) by (simp add: id_clock_id_of)
  with assms(3) have "fst p = fst q" by (simp add: id_of_def)
  with t show ?thesis by (simp add: prod_eq_iff)
qed

lemma distinct_ids:
  assumes "\<forall>p \<in> set ps. fst p = ascii ''user'' \<or> fst p = ascii ''agent''"
  shows "distinct (map id_of ps) \<longleftrightarrow> distinct ps"
proof -
  have "inj_on id_of (set ps)"
    using assms by (intro inj_onI) (simp add: id_of_inj)
  then show ?thesis by (simp add: distinct_map)
qed

text \<open>
  Claim C8, as amended. In every configuration reached from the start, the ids of the
  messages are, in the order of the history, the ids built from the clock readings the
  program has taken, in the order it took them, and the creation times the ids carry
  are those readings. So the ids are pairwise distinct exactly when no two messages of
  one role were created at the same reading, and the creation times are ordered along
  the history exactly as the readings are; strictly increasing readings give both.
  Every event, in whatever configuration, appends the ids of the readings it takes and
  no other.
\<close>

theorem message_ids_are_readings:
  assumes "run pos es initial = Some c"
  shows "map id' (messages (st c)) = map id_of (taken pos es initial) \<and>
         stamps (st c) = map snd (taken pos es initial) \<and>
         (distinct (map id' (messages (st c))) \<longleftrightarrow> distinct (taken pos es initial)) \<and>
         (sorted_wrt (<) (map snd (taken pos es initial)) \<longrightarrow>
            sorted_wrt (<) (stamps (st c)) \<and> distinct (map id' (messages (st c)))) \<and>
         (fire pos e c0 = Some c1 \<longrightarrow>
            map id' (messages (st c1)) =
              map id' (messages (st c0)) @ map id_of (created e c0))"
proof -
  define ps where "ps = taken pos es initial"
  have roles: "\<forall>p \<in> set ps. fst p = ascii ''user'' \<or> fst p = ascii ''agent''"
    using taken_roles [of _ pos es initial] by (auto simp: ps_def)
  have ids: "map id' (messages (st c)) = map id_of ps"
    using run_taken [OF assms] by (simp add: initial_def ps_def)
  have "stamps (st c) = map (\<lambda>p. id_clock (id_of p)) ps"
    using arg_cong [OF ids, of "map id_clock"] by (simp add: stamps_def comp_def)
  also have "\<dots> = map snd ps"
    using roles by (intro map_cong refl) (simp add: id_clock_id_of)
  finally have st: "stamps (st c) = map snd ps" .
  have d: "distinct (map id' (messages (st c))) \<longleftrightarrow> distinct ps"
    using distinct_ids [OF roles] by (simp add: ids)
  have s: "sorted_wrt (<) (stamps (st c)) \<and> distinct (map id' (messages (st c)))"
    if "sorted_wrt (<) (map snd ps)"
  proof -
    have "distinct (map snd ps)" using that strict_sorted_iff by blast
    then have "distinct ps" by (simp add: distinct_map)
    with that st d show ?thesis by simp
  qed
  have f: "map id' (messages (st c1)) = map id' (messages (st c0)) @ map id_of (created e c0)"
    if "fire pos e c0 = Some c1"
    using that by (rule fire_created)
  from ids st d s f show ?thesis unfolding ps_def by blast
qed

lemma run_same_reading:
  "run pos [Change (ascii ''hi''), Submit 1000, RagSettled Rejected 1000, Change (ascii ''hi''),
            Submit 1000] initial =
   Some \<lparr>st = \<lparr>messages = [userMessage 1000 (ascii ''hi''), failureMessage 1000,
                            userMessage 1000 (ascii ''hi'')],
              question = [], loading = True, calendarEvents = JArr []\<rparr>,
         awaiting_rag = 1, awaiting_events = 0, awaiting_mount = 1,
         trace = [GetEvents, PreventDefault, PostRag (ascii ''hi''), ConsoleError FetchFailed,
                  PreventDefault, PostRag (ascii ''hi'')]\<rparr>"
  by (simp add: fire_simps initial_def trim_hi rag_try_def)

lemma run_in_order:
  "run pos [Change (ascii ''hi''), Submit 1000, RagSettled Rejected 1200] initial =
   Some \<lparr>st = \<lparr>messages = [userMessage 1000 (ascii ''hi''), failureMessage 1200],
              question = [], loading = False, calendarEvents = JArr []\<rparr>,
         awaiting_rag = 0, awaiting_events = 0, awaiting_mount = 1,
         trace = [GetEvents, PreventDefault, PostRag (ascii ''hi''), ConsoleError FetchFailed]\<rparr>"
  by (simp add: fire_simps initial_def trim_hi rag_try_def)

lemma run_one_millisecond:
  "run pos [Change (ascii ''hi''), Submit 1000, Submit 5, RagSettled Rejected 1000] initial =
   Some \<lparr>st = \<lparr>messages = [userMessage 1000 (ascii ''hi''), failureMessage 1000],
              question = [], loading = False, calendarEvents = JArr []\<rparr>,
         awaiting_rag = 0, awaiting_events = 0, awaiting_mount = 1,
         trace = [GetEvents, PreventDefault, PostRag (ascii ''hi''), PreventDefault,
                  ConsoleError FetchFailed]\<rparr>"
  by (simp add: fire_simps initial_def trim_hi rag_try_def)

lemma run_then_draft:
  "run pos [Change (ascii ''hi''), Submit 1000, RagSettled Rejected 1200, Change (ascii ''hi'')]
     initial =
   Some \<lparr>st = \<lparr>messages = [userMessage 1000 (ascii ''hi''), failureMessage 1200],
              question = ascii ''hi'', loading = False, calendarEvents = JArr []\<rparr>,
         awaiting_rag = 0, awaiting_events = 0, awaiting_mount = 1,
         trace = [GetEvents, PreventDefault, PostRag (ascii ''hi''), ConsoleError FetchFailed]\<rparr>"
  by (simp add: fire_simps initial_def trim_hi rag_try_def)

lemma taken_in_order:
  "taken pos [Change (ascii ''hi''), Submit 1000, RagSettled Rejected 1200] initial =
     [(ascii ''user'', 1000), (ascii ''agent'', 1200)]"
  by (simp add: fire_simps initial_def trim_hi rag_try_def created_def)

lemma taken_one_millisecond:
  "taken pos [Change (ascii ''hi''), Submit 1000, Submit 5, RagSettled Rejected 1000] initial =
     [(ascii ''user'', 1000), (ascii ''agent'', 1000)]"
  by (simp add: fire_simps initial_def trim_hi rag_try_def created_def)

lemma thousand: "int_str 1000 = ascii ''1000''" "int_str 1200 = ascii ''1200''"
  by (simp_all add: int_str_def nat_str.simps digit_def ascii_def)

theorem message_ids_are_readings_witness:
  "run no_numeric_strings
     [Change (ascii ''hi''), Submit 1000, Submit 5, RagSettled Rejected 1000] initial =
   Some \<lparr>st = \<lparr>messages = [userMessage 1000 (ascii ''hi''), failureMessage 1000],
              question = [], loading = False, calendarEvents = JArr []\<rparr>,
         awaiting_rag = 0, awaiting_events = 0, awaiting_mount = 1,
         trace = [GetEvents, PreventDefault, PostRag (ascii ''hi''), PreventDefault,
                  ConsoleError FetchFailed]\<rparr> \<and>
   taken no_numeric_strings
     [Change (ascii ''hi''), Submit 1000, Submit 5, RagSettled Rejected 1000] initial =
     [(ascii ''user'', 1000), (ascii ''agent'', 1000)] \<and>
   map id' [userMessage 1000 (ascii ''hi''), failureMessage 1000] =
     [ascii ''user-1000'', ascii ''agent-1000''] \<and>
   distinct (map id' [userMessage 1000 (ascii ''hi''), failureMessage 1000]) \<and>
   run no_numeric_strings [Change (ascii ''hi''), Submit 1000, RagSettled Rejected 1200] initial =
   Some \<lparr>st = \<lparr>messages = [userMessage 1000 (ascii ''hi''), failureMessage 1200],
              question = [], loading = False, calendarEvents = JArr []\<rparr>,
         awaiting_rag = 0, awaiting_events = 0, awaiting_mount = 1,
         trace = [GetEvents, PreventDefault, PostRag (ascii ''hi''), ConsoleError FetchFailed]\<rparr> \<and>
   sorted_wrt (<) (map snd (taken no_numeric_strings
     [Change (ascii ''hi''), Submit 1000, RagSettled Rejected 1200] initial)) \<and>
   stamps \<lparr>messages = [userMessage 1000 (ascii ''hi''), failureMessage 1200],
           question = [], loading = False, calendarEvents = JArr []\<rparr> = [1000, 1200] \<and>
   distinct (map id' [userMessage 1000 (ascii ''hi''), failureMessage 1200]) \<and>
   fire no_numeric_strings (Submit 1300)
     \<lparr>st = \<lparr>messages = [userMessage 1000 (ascii ''hi''), failureMessage 1200],
            question = ascii ''hi'', loading = False, calendarEvents = JArr []\<rparr>,
       awaiting_rag = 0, awaiting_events = 0, awaiting_mount = 1,
       trace = [GetEvents, PreventDefault, PostRag (ascii ''hi''), ConsoleError FetchFailed]\<rparr> =
   Some
     \<lparr>st = \<lparr>messages = [userMessage 1000 (ascii ''hi''), failureMessage 1200,
                          userMessage 1300 (ascii ''hi'')],
            question = [], loading = True, calendarEvents = JArr []\<rparr>,
       awaiting_rag = 1, awaiting_events = 0, awaiting_mount = 1,
       trace = [GetEvents, PreventDefault, PostRag (ascii ''hi''), ConsoleError FetchFailed,
                PreventDefault, PostRag (ascii ''hi'')]\<rparr> \<and>
   map id' [userMessage 1000 (ascii ''hi''), failureMessage 1200, userMessage 1300 (ascii ''hi'')] =
     map id' [userMessage 1000 (ascii ''hi''), failureMessage 1200] @
     [id_of (ascii ''user'', 1300)]"
proof -
  let ?c3 = "\<lparr>st = \<lparr>messages = [userMessage 1000 (ascii ''hi''), failureMessage 1200],
            question = ascii ''hi'', loading = False, calendarEvents = JArr []\<rparr>,
       awaiting_rag = 0, awaiting_events = 0, awaiting_mount = 1,
       trace = [GetEvents, PreventDefault, PostRag (ascii ''hi''), ConsoleError FetchFailed]\<rparr>"
  let ?c4 = "\<lparr>st = \<lparr>messages = [userMessage 1000 (ascii ''hi''), failureMessage 1200,
                          userMessage 1300 (ascii ''hi'')],
            question = [], loading = True, calendarEvents = JArr []\<rparr>,
       awaiting_rag = 1, awaiting_events = 0, awaiting_mount = 1,
       trace = [GetEvents, PreventDefault, PostRag (ascii ''hi''), ConsoleError FetchFailed,
                PreventDefault, PostRag (ascii ''hi'')]\<rparr>"
  let ?c1 = "\<lparr>st = \<lparr>messages = [userMessage 1000 (ascii ''hi''), failureMessage 1000],
              question = [], loading = False, calendarEvents = JArr []\<rparr>,
         awaiting_rag = 0, awaiting_events = 0, awaiting_mount = 1,
         trace = [GetEvents, PreventDefault, PostRag (ascii ''hi''), PreventDefault,
                  ConsoleError FetchFailed]\<rparr>"
  let ?c2 = "\<lparr>st = \<lparr>messages = [userMessage 1000 (ascii ''hi''), failureMessage 1200],
              question = [], loading = False, calendarEvents = JArr []\<rparr>,
         awaiting_rag = 0, awaiting_events = 0, awaiting_mount = 1,
         trace = [GetEvents, PreventDefault, PostRag (ascii ''hi''), ConsoleError FetchFailed]\<rparr>"
  have r1: "run no_numeric_strings
      [Change (ascii ''hi''), Submit 1000, Submit 5, RagSettled Rejected 1000] initial = Some ?c1"
    by (rule run_one_millisecond)
  have r2: "run no_numeric_strings
      [Change (ascii ''hi''), Submit 1000, RagSettled Rejected 1200] initial = Some ?c2"
    by (rule run_in_order)
  have t1: "taken no_numeric_strings
      [Change (ascii ''hi''), Submit 1000, Submit 5, RagSettled Rejected 1000] initial =
      [(ascii ''user'', 1000), (ascii ''agent'', 1000)]"
    by (rule taken_one_millisecond)
  have i: "map id' [userMessage 1000 (ascii ''hi''), failureMessage 1000] =
     [ascii ''user-1000'', ascii ''agent-1000'']"
    by (simp add: userMessage_def failureMessage_def thousand ascii_def)
  have r3: "run no_numeric_strings
      [Change (ascii ''hi''), Submit 1000, RagSettled Rejected 1200, Change (ascii ''hi'')]
      initial = Some ?c3"
    by (rule run_then_draft)
  have f: "fire no_numeric_strings (Submit 1300) ?c3 = Some ?c4"
    by (simp add: fire_simps trim_hi)
  note a = message_ids_are_readings [OF r1]
  note b = message_ids_are_readings [OF r2]
  note c = message_ids_are_readings [OF r3, of "Submit 1300" ?c3 ?c4]
  have d1: "distinct (map id' [userMessage 1000 (ascii ''hi''), failureMessage 1000])"
    using a [THEN conjunct2, THEN conjunct2, THEN conjunct1]
    by (simp add: t1 del: taken.simps)
  have so: "sorted_wrt (<) (map snd (taken no_numeric_strings
      [Change (ascii ''hi''), Submit 1000, RagSettled Rejected 1200] initial))"
    by (simp add: taken_in_order del: taken.simps)
  have s2: "stamps \<lparr>messages = [userMessage 1000 (ascii ''hi''), failureMessage 1200],
           question = [], loading = False, calendarEvents = JArr []\<rparr> = [1000, 1200]"
    using b [THEN conjunct2, THEN conjunct1]
    by (simp add: taken_in_order del: taken.simps)
  have d2: "distinct (map id' [userMessage 1000 (ascii ''hi''), failureMessage 1200])"
    using b [THEN conjunct2, THEN conjunct2, THEN conjunct2, THEN conjunct1] so
    by (simp del: taken.simps)
  have a4: "map id' [userMessage 1000 (ascii ''hi''), failureMessage 1200,
        userMessage 1300 (ascii ''hi'')] =
      map id' [userMessage 1000 (ascii ''hi''), failureMessage 1200] @
      [id_of (ascii ''user'', 1300)]"
    using c [THEN conjunct2, THEN conjunct2, THEN conjunct2, THEN conjunct2] f
    by (simp add: created_def trim_hi del: taken.simps)
  show ?thesis
    by (intro conjI; (rule r1 t1 i d1 r2 so s2 d2 f a4))
qed

text \<open>
  Claim C8 as stated fails: the ids are built from \<^verbatim>\<open>Date.now()\<close> alone. Where a failed
  request and the next submission fall within the millisecond of the first submission, two
  user messages carry the same id.
\<close>

theorem message_ids_repeat:
  "run no_numeric_strings
     [Change (ascii ''hi''), Submit 1000, RagSettled Rejected 1000, Change (ascii ''hi''),
      Submit 1000] initial =
   Some \<lparr>st = \<lparr>messages = [userMessage 1000 (ascii ''hi''), failureMessage 1000,
                            userMessage 1000 (ascii ''hi'')],
              question = [], loading = True, calendarEvents = JArr []\<rparr>,
         awaiting_rag = 1, awaiting_events = 0, awaiting_mount = 1,
         trace = [GetEvents, PreventDefault, PostRag (ascii ''hi''), ConsoleError FetchFailed,
                  PreventDefault, PostRag (ascii ''hi'')]\<rparr> \<and>
   map id' [userMessage 1000 (ascii ''hi''), failureMessage 1000, userMessage 1000 (ascii ''hi'')] =
     [ascii ''user-1000'', ascii ''agent-1000'', ascii ''user-1000''] \<and>
   \<not> distinct (map id' [userMessage 1000 (ascii ''hi''), failureMessage 1000,
                         userMessage 1000 (ascii ''hi'')])"
proof -
  have i: "map id' [userMessage 1000 (ascii ''hi''), failureMessage 1000,
                    userMessage 1000 (ascii ''hi'')] =
     [ascii ''user-1000'', ascii ''agent-1000'', ascii ''user-1000'']"
    by (simp add: userMessage_def failureMessage_def thousand ascii_def)
  have d: "\<not> distinct (map id' [userMessage 1000 (ascii ''hi''), failureMessage 1000,
                         userMessage 1000 (ascii ''hi'')])"
    by simp
  from run_same_reading [of no_numeric_strings] i d show ?thesis by (intro conjI)
qed

end
